theory Spec2Isabelle
  imports Complex_Main "HOL-Library.Sublist"
begin

section \<open>Python strings\<close>

text \<open>
  A Python \<open>str\<close> is modelled as a \<open>string\<close> (a list of characters); a character
  stands for the code point of the same number, so that the strings of the model are the
  Python strings over the code points below 256.
  \<open>sub in s\<close> is substring search, \<open>s.replace(old, new)\<close> replaces the
  non-overlapping occurrences of \<open>old\<close> from left to right.
\<close>

fun str_contains :: "string \<Rightarrow> string \<Rightarrow> bool" where
  "str_contains sub [] = (sub = [])"
| "str_contains sub (c # cs) = (prefix sub (c # cs) \<or> str_contains sub cs)"

function str_replace :: "string \<Rightarrow> string \<Rightarrow> string \<Rightarrow> string" where
  "str_replace old new s =
     (if old = [] then new @ concat (map (\<lambda>c. c # new) s)
      else if s = [] then []
      else if prefix old s then new @ str_replace old new (drop (length old) s)
      else hd s # str_replace old new (tl s))"
  by pat_completeness auto
termination
  by (relation "measure (\<lambda>(old, new, s). length s)") auto

declare str_replace.simps [simp del]

section \<open>Type mapper\<close>

text \<open>
  \<open>PGSqlite.remap_column_type\<close> (the spec's \<open>map_type\<close>): an \<open>if\<close>/\<open>elif\<close> chain,
  the first matching branch returns. Neither \<open>in\<close> nor \<open>replace\<close> raises on a
  \<open>str\<close>, so the function has no error branch.
\<close>

definition remap_column_type :: "string \<Rightarrow> string" where
  "remap_column_type column_type =
     (if str_contains ''STRING'' column_type then ''TEXT''
      else if str_contains ''NVARCHAR'' column_type
        then str_replace ''NVARCHAR'' ''VARCHAR'' column_type
      else if str_contains ''DATETIME'' column_type then ''TIMESTAMP''
      else if str_contains ''BLOB'' column_type then ''BYTEA''
      else column_type)"

section \<open>Python values and errors\<close>

text \<open>
  The values a \<open>sqlite3\<close> cursor hands out: \<open>None\<close>, \<open>int\<close>, \<open>float\<close>, \<open>str\<close> and
  \<open>bytes\<close>. A float is kept as a real number: the code only tests it for truth
  and compares it with \<open>0\<close> and \<open>1\<close>. Exceptions are values of \<open>error\<close>.
\<close>

datatype pyval = PNone | PInt int | PFloat real | PStr string | PBytes string

datatype error =
    Exception string
  | AttributeError
  | ValueError
  | KeyError string
  | IndexError
  | TypeError
  | OperationalError

text \<open>
  A \<open>for\<close> loop that appends one result per element: the first exception ends it.
\<close>

fun map_err :: "('a \<Rightarrow> error + 'b) \<Rightarrow> 'a list \<Rightarrow> error + 'b list" where
  "map_err f [] = Inr []"
| "map_err f (x # xs) =
     (case f x of
        Inl e \<Rightarrow> Inl e
      | Inr y \<Rightarrow> (case map_err f xs of Inl e \<Rightarrow> Inl e | Inr ys \<Rightarrow> Inr (y # ys)))"

text \<open>\<open>not v\<close> is \<open>\<not> py_truthy v\<close>; \<open>v == n\<close> for an integer literal \<open>n\<close> is \<open>py_eq_int v n\<close>.\<close>

fun py_truthy :: "pyval \<Rightarrow> bool" where
  "py_truthy PNone = False"
| "py_truthy (PInt i) = (i \<noteq> 0)"
| "py_truthy (PFloat r) = (r \<noteq> 0)"
| "py_truthy (PStr s) = (s \<noteq> [])"
| "py_truthy (PBytes b) = (b \<noteq> [])"

fun py_eq_int :: "pyval \<Rightarrow> int \<Rightarrow> bool" where
  "py_eq_int (PInt i) n = (i = n)"
| "py_eq_int (PFloat r) n = (r = of_int n)"
| "py_eq_int _ n = False"

text \<open>
  \<open>lower()\<close> exists on \<open>str\<close> and \<open>bytes\<close> only, any other value raises
  \<open>AttributeError\<close>. On \<open>bytes\<close> it maps the ASCII capitals; on \<open>str\<close> it also maps the
  capitals from U+00C0 to U+00DE (the multiplication sign U+00D7 is not a letter) to
  the letter 32 places further.
\<close>

definition lower_char :: "char \<Rightarrow> char" where
  "lower_char c =
     (case map_of (zip ''ABCDEFGHIJKLMNOPQRSTUVWXYZ'' ''abcdefghijklmnopqrstuvwxyz'') c of
        Some l \<Rightarrow> l
      | None \<Rightarrow> c)"

definition str_lower_char :: "char \<Rightarrow> char" where
  "str_lower_char c =
     (case map_of
             (zip [CHR 0xC0, CHR 0xC1, CHR 0xC2, CHR 0xC3, CHR 0xC4, CHR 0xC5, CHR 0xC6, CHR 0xC7,
                   CHR 0xC8, CHR 0xC9, CHR 0xCA, CHR 0xCB, CHR 0xCC, CHR 0xCD, CHR 0xCE, CHR 0xCF,
                   CHR 0xD0, CHR 0xD1, CHR 0xD2, CHR 0xD3, CHR 0xD4, CHR 0xD5, CHR 0xD6,
                   CHR 0xD8, CHR 0xD9, CHR 0xDA, CHR 0xDB, CHR 0xDC, CHR 0xDD, CHR 0xDE]
                  [CHR 0xE0, CHR 0xE1, CHR 0xE2, CHR 0xE3, CHR 0xE4, CHR 0xE5, CHR 0xE6, CHR 0xE7,
                   CHR 0xE8, CHR 0xE9, CHR 0xEA, CHR 0xEB, CHR 0xEC, CHR 0xED, CHR 0xEE, CHR 0xEF,
                   CHR 0xF0, CHR 0xF1, CHR 0xF2, CHR 0xF3, CHR 0xF4, CHR 0xF5, CHR 0xF6,
                   CHR 0xF8, CHR 0xF9, CHR 0xFA, CHR 0xFB, CHR 0xFC, CHR 0xFD, CHR 0xFE]) c of
        Some l \<Rightarrow> l
      | None \<Rightarrow> lower_char c)"

fun py_lower :: "pyval \<Rightarrow> error + pyval" where
  "py_lower (PStr s) = Inr (PStr (map str_lower_char s))"
| "py_lower (PBytes b) = Inr (PBytes (map lower_char b))"
| "py_lower _ = Inl AttributeError"

section \<open>Value transformer\<close>

text \<open>
  \<open>PGSqlite.boolean_transformer\<close>. The two guards come first; then
  \<open>val == 1 or val.lower() == "true"\<close>, where \<open>or\<close> evaluates \<open>val.lower()\<close> only
  when \<open>val == 1\<close> is false.
\<close>

definition boolean_transformer :: "pyval \<Rightarrow> bool \<Rightarrow> error + pyval" where
  "boolean_transformer val nullable =
     (if nullable \<and> \<not> py_truthy val then Inr PNone
      else if \<not> nullable \<and> \<not> py_truthy val
        then Inl (Exception ''Value is None but column is not nullable'')
      else if py_eq_int val 1 then Inr (PStr ''TRUE'')
      else (case py_lower val of
              Inl e \<Rightarrow> Inl e
            | Inr l \<Rightarrow> if l = PStr ''true'' then Inr (PStr ''TRUE'') else Inr (PStr ''FALSE'')))"

section \<open>Catalog\<close>

text \<open>
  The \<open>sqlite_utils\<close> column tuple: \<open>cid\<close>, \<open>name\<close>, \<open>type\<close>, \<open>notnull\<close>, \<open>default_value\<close>.
  The fields carry the prefix \<open>col_\<close> because record fields are global names.
\<close>

record column =
  col_cid :: nat
  col_name :: string
  col_type :: string
  col_notnull :: bool
  col_default_value :: "string option"

section \<open>Row transformation of the bulk loader\<close>

text \<open>
  The body of the \<open>for idx, c in enumerate(table.columns)\<close> loop of
  \<open>PGSqlite.write_table_data\<close> for one cell. \<open>self.transformers\<close> has the single key
  \<open>'BOOLEAN'\<close>, bound to \<open>boolean_transformer\<close>.
\<close>

definition apply_transformer :: "column \<Rightarrow> pyval \<Rightarrow> error + pyval" where
  "apply_transformer c v =
     (if col_type c = ''BOOLEAN'' then boolean_transformer v (\<not> col_notnull c) else Inr v)"

definition coerce_empty :: "column \<Rightarrow> pyval \<Rightarrow> pyval" where
  "coerce_empty c v =
     (if \<not> col_notnull c then (if \<not> py_eq_int v 0 \<and> \<not> py_truthy v then PNone else v)
      else v)"

definition transform_cell :: "column \<Rightarrow> pyval \<Rightarrow> error + pyval" where
  "transform_cell c v =
     (case apply_transformer c v of Inl e \<Rightarrow> Inl e | Inr w \<Rightarrow> Inr (coerce_empty c w))"

text \<open>
  The loop over the columns of one row. \<open>row[idx]\<close> is read only for a column with a
  transformer or a nullable column; reading past the end of the row raises
  \<open>IndexError\<close>. Cells beyond the last column are left as they are.
\<close>

fun transform_row :: "column list \<Rightarrow> pyval list \<Rightarrow> error + pyval list" where
  "transform_row [] row = Inr row"
| "transform_row (c # cs) [] =
     (if col_type c = ''BOOLEAN'' \<or> \<not> col_notnull c then Inl IndexError
      else transform_row cs [])"
| "transform_row (c # cs) (v # vs) =
     (case transform_cell c v of
        Inl e \<Rightarrow> Inl e
      | Inr w \<Rightarrow> (case transform_row cs vs of Inl e \<Rightarrow> Inl e | Inr ws \<Rightarrow> Inr (w # ws)))"

section \<open>Composable SQL\<close>

text \<open>
  The objects of \<open>psycopg.sql\<close> the code builds: \<open>SQL\<close> (a raw fragment),
  \<open>Identifier\<close>, \<open>Literal\<close> and \<open>Composed\<close> (a sequence of them). \<open>get_table_sql\<close> and
  its siblings return such objects, not strings; quoting happens later, inside the
  driver, when a statement is executed.
\<close>

datatype sql = SQL string | Identifier string | Literal pyval | Composed "sql list"

text \<open>\<open>sep.join(seq)\<close>: the items of \<open>seq\<close> with \<open>sep\<close> between neighbours.\<close>

fun join_items :: "sql \<Rightarrow> sql list \<Rightarrow> sql list" where
  "join_items sep [] = []"
| "join_items sep [x] = [x]"
| "join_items sep (x # y # ys) = x # sep # join_items sep (y # ys)"

definition sql_join :: "sql \<Rightarrow> sql list \<Rightarrow> sql" where
  "sql_join sep seq = Composed (join_items sep seq)"

text \<open>\<open>a + b\<close>: a \<open>Composed\<close> operand contributes its items, any other operand itself.\<close>

fun sql_add :: "sql \<Rightarrow> sql \<Rightarrow> sql" where
  "sql_add (Composed xs) (Composed ys) = Composed (xs @ ys)"
| "sql_add (Composed xs) y = Composed (xs @ [y])"
| "sql_add x (Composed ys) = Composed (x # ys)"
| "sql_add x y = Composed [x, y]"

text \<open>
  \<open>SQL(template).format(**kwargs)\<close>. The template is read by Python's format-string
  parser, one item at a time: literal text up to a brace (a doubled brace is a literal
  brace and ends the item), then a field \<open>{name}\<close>. A lone \<open>}\<close>, an unclosed \<open>{\<close> or a
  \<open>{\<close> inside a field name is a \<open>ValueError\<close>; inside a field name a \<open>[\<close> hides
  everything up to the next \<open>]\<close>. \<open>SQL.format\<close> refuses a conversion (\<open>!\<close>) and a
  non-empty format specification (\<open>:\<close>) with a \<open>ValueError\<close>, looks a numeric or empty
  name up among the positional arguments (the code passes none: \<open>IndexError\<close>) and any
  other name among the keyword arguments (\<open>KeyError\<close> when absent). Items are handled
  from left to right, so the first failure is the one raised.

  A name is numeric when \<open>name.isdigit()\<close> holds: it is not empty and made of the
  digits \<open>0\<close> to \<open>9\<close> and the superscript digits U+00B2, U+00B3 and U+00B9. \<open>int(name)\<close>
  then raises \<open>ValueError\<close> on a superscript digit, and on more than 4300 digits (the
  interpreter's default limit for the conversion).
\<close>

datatype fmt_mode = Lit string | Name string string | Bracket string string

definition emit :: "string \<Rightarrow> sql list" where
  "emit pre = (if pre = [] then [] else [SQL pre])"

definition is_digits :: "string \<Rightarrow> bool" where
  "is_digits s =
     (s \<noteq> [] \<and> list_all (\<lambda>c. c \<in> set (''0123456789'' @ [CHR 0xB2, CHR 0xB3, CHR 0xB9])) s)"

definition int_of_name :: "string \<Rightarrow> error + nat" where
  "int_of_name s =
     (if list_all (\<lambda>c. c \<in> set ''0123456789'') s \<and> length s \<le> 4300
      then Inr (foldl (\<lambda>n c. 10 * n + ((of_char c :: nat) - 48)) 0 s)
      else Inl ValueError)"

definition then_items :: "sql list \<Rightarrow> error + sql list \<Rightarrow> error + sql list" where
  "then_items xs rest = (case rest of Inl e \<Rightarrow> Inl e | Inr items \<Rightarrow> Inr (xs @ items))"

definition field :: "(string \<times> sql) list \<Rightarrow> string \<Rightarrow> string \<Rightarrow> error + sql list \<Rightarrow> error + sql list" where
  "field kw pre nm rest =
     (if is_digits nm then
        (case int_of_name nm of Inl e \<Rightarrow> Inl e | Inr n \<Rightarrow> Inl IndexError)
      else if nm = [] then Inl IndexError
      else (case map_of kw nm of
              None \<Rightarrow> Inl (KeyError nm)
            | Some v \<Rightarrow> then_items (emit pre @ [v]) rest))"

fun format_items :: "(string \<times> sql) list \<Rightarrow> fmt_mode \<Rightarrow> string \<Rightarrow> error + sql list" where
  "format_items kw (Lit pre) [] = Inr (emit pre)"
| "format_items kw (Lit pre) [c] =
     (if c = CHR ''{'' \<or> c = CHR ''}'' then Inl ValueError else Inr (emit (pre @ [c])))"
| "format_items kw (Lit pre) (c # d # cs) =
     (if c = CHR ''{'' \<or> c = CHR ''}'' then
        (if d = c then then_items (emit (pre @ [c])) (format_items kw (Lit []) cs)
         else if c = CHR ''}'' then Inl ValueError
         else format_items kw (Name pre []) (d # cs))
      else format_items kw (Lit (pre @ [c])) (d # cs))"
| "format_items kw (Name pre nm) [] = Inl ValueError"
| "format_items kw (Name pre nm) (c # cs) =
     (if c = CHR ''{'' then Inl ValueError
      else if c = CHR ''['' then format_items kw (Bracket pre (nm @ [c])) cs
      else if c = CHR ''}'' then field kw pre nm (format_items kw (Lit []) cs)
      else if c = CHR ''!'' then Inl ValueError
      else if c = CHR '':'' then
        (case cs of
           [] \<Rightarrow> Inl ValueError
         | d # ds \<Rightarrow>
             if d = CHR ''}'' then field kw pre nm (format_items kw (Lit []) ds)
             else Inl ValueError)
      else format_items kw (Name pre (nm @ [c])) cs)"
| "format_items kw (Bracket pre nm) [] = Inl ValueError"
| "format_items kw (Bracket pre nm) (c # cs) =
     (if c = CHR '']'' then format_items kw (Name pre (nm @ [c])) cs
      else format_items kw (Bracket pre (nm @ [c])) cs)"

definition sql_format :: "string \<Rightarrow> (string \<times> sql) list \<Rightarrow> error + sql" where
  "sql_format template kw =
     (case format_items kw (Lit []) template of Inl e \<Rightarrow> Inl e | Inr items \<Rightarrow> Inr (Composed items))"

section \<open>Tables, keys and indexes of the catalog\<close>

text \<open>
  What the code reads of a \<open>sqlite_utils\<close> table: \<open>name\<close>, \<open>columns\<close>, \<open>pks\<close>,
  \<open>use_rowid\<close>, \<open>foreign_keys\<close> and \<open>xindexes\<close>. The name of an index column is
  \<open>None\<close> for an expression or the rowid; the referenced column of a foreign key is
  \<open>None\<close> when the \<open>REFERENCES\<close> clause names the table only.
\<close>

record foreign_key =
  fk_column :: string
  fk_other_table :: string
  fk_other_column :: "string option"

record xindex_column =
  xic_name :: "string option"
  xic_desc :: bool

record xindex =
  xi_name :: string
  xi_columns :: "xindex_column list"

record table =
  tbl_name :: string
  tbl_columns :: "column list"
  tbl_pks :: "string list"
  tbl_use_rowid :: bool
  tbl_foreign_keys :: "foreign_key list"
  tbl_xindexes :: "xindex list"

section \<open>The loader object\<close>

text \<open>
  The fields of a \<open>PGSqlite\<close> instance that the schema and load phases change. The
  summary is \<open>summary["tables"][category][table][key]\<close>; its \<open>views\<close> and \<open>triggers\<close>
  parts are written only under \<open>not _IGNORE_VIEWS\<close> and \<open>not _IGNORE_TRIGGERS\<close>, both
  constants being \<open>True\<close>, and are left out. A summary value is a string, a number
  or the string \<open>f"LOADED {n}"\<close>, kept as \<open>SLoaded n\<close>. A method that changes the
  object returns its result with the object after the call; when it raises, the
  exception is returned instead and the changes made up to that point are dropped.
\<close>

datatype category = Columns | Pks | Fks | Checks | Data | Indexes

datatype sumval = SStr string | SInt int | SLoaded nat

record pgsqlite =
  tables_sql :: "sql list"
  fks_sql :: "sql list"
  indexes_sql :: "sql list"
  checks_sql_by_table :: "string \<rightharpoonup> sql list"
  summary :: "category \<Rightarrow> string \<rightharpoonup> (string \<rightharpoonup> sumval)"

text \<open>The object as \<open>__init__\<close> leaves it.\<close>

definition init :: pgsqlite where
  "init = \<lparr>tables_sql = [], fks_sql = [], indexes_sql = [],
            checks_sql_by_table = Map.empty, summary = (\<lambda>cat. Map.empty)\<rparr>"

definition IGNORE_CHECKS :: bool where
  "IGNORE_CHECKS = True"

text \<open>\<open>summary["tables"][cat][t] = {}\<close> and \<open>summary["tables"][cat][t][k] = v\<close>.\<close>

definition summary_new :: "category \<Rightarrow> string \<Rightarrow> pgsqlite \<Rightarrow> pgsqlite" where
  "summary_new cat t st = st\<lparr>summary := (summary st)(cat := (summary st cat)(t \<mapsto> Map.empty))\<rparr>"

definition summary_set :: "category \<Rightarrow> string \<Rightarrow> string \<Rightarrow> sumval \<Rightarrow> pgsqlite \<Rightarrow> error + pgsqlite" where
  "summary_set cat t k v st =
     (case summary st cat t of
        None \<Rightarrow> Inl (KeyError t)
      | Some entry \<Rightarrow> Inr (st\<lparr>summary := (summary st)(cat := (summary st cat)(t \<mapsto> entry(k \<mapsto> v)))\<rparr>))"

text \<open>A fresh entry with a status and a count, as every DDL builder writes it.\<close>

definition summary_prepared :: "category \<Rightarrow> string \<Rightarrow> nat \<Rightarrow> pgsqlite \<Rightarrow> pgsqlite" where
  "summary_prepared cat t n st =
     st\<lparr>summary := (summary st)(cat := (summary st cat)
        (t \<mapsto> [''status'' \<mapsto> SStr ''PREPARED'', ''count'' \<mapsto> SInt (int n)]))\<rparr>"

section \<open>DDL synthesizer\<close>

text \<open>
  The body of the column loop of \<open>PGSqlite.get_table_sql\<close>. The mapped type is
  concatenated into the template before \<open>format\<close> reads it. A default value is
  emitted when it is truthy (present and not the empty string).
\<close>

definition column_sql :: "column \<Rightarrow> error + sql" where
  "column_sql c =
     (let column_type = remap_column_type (col_type c) in
      case sql_format (''    {name} '' @ column_type) [(''name'', Identifier (col_name c))] of
        Inl e \<Rightarrow> Inl e
      | Inr s0 \<Rightarrow>
          (let s1 = (if col_notnull c then sql_join (SQL '' '') [s0, SQL ''NOT NULL''] else s0) in
           case col_default_value c of
             None \<Rightarrow> Inr s1
           | Some d \<Rightarrow>
               if d = [] then Inr s1
               else (case sql_format ''DEFAULT {default_value}''
                            [(''default_value'', Literal (PStr d))] of
                       Inl e \<Rightarrow> Inl e
                     | Inr ds \<Rightarrow> Inr (sql_join (SQL '' '') [s1, ds]))))"

definition columns_sql :: "column list \<Rightarrow> error + sql list" where
  "columns_sql cs = map_err column_sql cs"

text \<open>The primary-key clause (lines 88 to 93), applied to the joined column clauses.\<close>

definition pk_sql :: "table \<Rightarrow> error + sql" where
  "pk_sql t =
     (let pk_name = ''PK_'' @ concat (tbl_pks t) in
      sql_format ''    CONSTRAINT {pk_name} PRIMARY KEY ({pks})''
        [(''table_name'', Identifier (tbl_name t)),
         (''pk_name'', Identifier pk_name),
         (''pks'', sql_join (SQL '', '') (map Identifier (tbl_pks t)))])"

definition with_pk :: "table \<Rightarrow> sql \<Rightarrow> error + sql" where
  "with_pk t all_column_sql =
     (if tbl_pks t \<noteq> [] \<and> \<not> tbl_use_rowid t then
        (case pk_sql t of
           Inl e \<Rightarrow> Inl e
         | Inr pk \<Rightarrow> Inr (sql_join (SQL ''    '') [sql_add all_column_sql (SQL '',\<newline>''), pk]))
      else Inr all_column_sql)"

text \<open>
  The check clauses (lines 99 to 107). \<open>self.checks_sql_by_table[table.name]\<close> is a
  plain subscript: a table name that is not a key raises \<open>KeyError\<close>, after the
  summary entry of the checks has been created.
\<close>

definition with_checks :: "pgsqlite \<Rightarrow> table \<Rightarrow> sql \<Rightarrow> error + (sql \<times> pgsqlite)" where
  "with_checks st t all_column_sql =
     (let st1 = summary_new Checks (tbl_name t) st in
      case checks_sql_by_table st1 (tbl_name t) of
        None \<Rightarrow> Inl (KeyError (tbl_name t))
      | Some checks \<Rightarrow>
          (let (all2, status) =
                 (if checks \<noteq> [] \<and> \<not> IGNORE_CHECKS then
                    (sql_join (SQL [])
                       [sql_add all_column_sql (SQL '',\<newline>''), sql_join (SQL '',\<newline>'') checks],
                     ''PREPARED'')
                  else (all_column_sql, ''IGNORED''))
           in case summary_set Checks (tbl_name t) ''status'' (SStr status) st1 of
                Inl e \<Rightarrow> Inl e
              | Inr st2 \<Rightarrow>
                  (case summary_set Checks (tbl_name t) ''count'' (SInt (int (length checks))) st2 of
                     Inl e \<Rightarrow> Inl e
                   | Inr st3 \<Rightarrow> Inr (all2, st3))))"

text \<open>\<open>PGSqlite.get_table_sql\<close>: the statement and the object after the call, or the exception.\<close>

definition get_table_sql :: "pgsqlite \<Rightarrow> table \<Rightarrow> error + (sql \<times> pgsqlite)" where
  "get_table_sql st t =
     (case sql_format ''CREATE TABLE {table_name} ('' [(''table_name'', Identifier (tbl_name t))] of
        Inl e \<Rightarrow> Inl e
      | Inr create_sql \<Rightarrow>
     (case columns_sql (tbl_columns t) of
        Inl e \<Rightarrow> Inl e
      | Inr cols \<Rightarrow>
     (let st1 = summary_prepared Columns (tbl_name t) (length (tbl_columns t)) st in
      case with_pk t (sql_join (SQL '',\<newline>'') cols) of
        Inl e \<Rightarrow> Inl e
      | Inr all1 \<Rightarrow>
     (let st2 = summary_prepared Pks (tbl_name t) (length (tbl_pks t)) st1 in
      case with_checks st2 t all1 of
        Inl e \<Rightarrow> Inl e
      | Inr (all2, st3) \<Rightarrow>
          Inr (sql_join (SQL ''\<newline>'') [create_sql, all2, SQL '');''], st3)))))"

text \<open>
  \<open>PGSqlite.get_fk_sql\<close>: one \<open>ALTER TABLE\<close> statement per foreign key, the constraint
  named after the referenced column. \<open>"FK_" + fk.other_column\<close> raises \<open>TypeError\<close> when
  the referenced column is \<open>None\<close>.
\<close>

definition fk_sql :: "table \<Rightarrow> foreign_key \<Rightarrow> error + sql" where
  "fk_sql t fk =
     (case fk_other_column fk of
        None \<Rightarrow> Inl TypeError
      | Some other_column \<Rightarrow>
          (let fk_name = ''FK_'' @ other_column in
           sql_format
             ''ALTER TABLE {table_name} ADD CONSTRAINT {key_name}  FOREIGN KEY ({column}) REFERENCES {other_table} ({other_column})''
             [(''table_name'', Identifier (tbl_name t)),
              (''column'', Identifier (fk_column fk)),
              (''key_name'', Identifier fk_name),
              (''other_table'', Identifier (fk_other_table fk)),
              (''other_column'', Identifier other_column)]))"

definition get_fk_sql :: "pgsqlite \<Rightarrow> table \<Rightarrow> error + (sql list \<times> pgsqlite)" where
  "get_fk_sql st t =
     (case map_err (fk_sql t) (tbl_foreign_keys t) of
        Inl e \<Rightarrow> Inl e
      | Inr sqls \<Rightarrow> Inr (sqls, summary_prepared Fks (tbl_name t) (length (tbl_foreign_keys t)) st))"

text \<open>
  \<open>PGSqlite.get_index_sql\<close>. The inner loop skips (\<open>continue\<close>) a column whose name is
  falsy, that is \<open>None\<close> or empty; the statement is built from whatever is left.
\<close>

fun index_columns_sql :: "xindex_column list \<Rightarrow> error + sql list" where
  "index_columns_sql [] = Inr []"
| "index_columns_sql (col # cols) =
     (case xic_name col of
        None \<Rightarrow> index_columns_sql cols
      | Some n \<Rightarrow>
          if n = [] then index_columns_sql cols
          else (let order = (if xic_desc col then ''DESC'' else ''ASC'') in
                case sql_format ''{name} {sort_order}''
                       [(''name'', Identifier n), (''sort_order'', SQL order)] of
                  Inl e \<Rightarrow> Inl e
                | Inr x \<Rightarrow>
                    (case index_columns_sql cols of Inl e \<Rightarrow> Inl e | Inr xs \<Rightarrow> Inr (x # xs))))"

definition index_sql :: "table \<Rightarrow> xindex \<Rightarrow> error + sql" where
  "index_sql t index =
     (case index_columns_sql (xi_columns index) of
        Inl e \<Rightarrow> Inl e
      | Inr col_sql \<Rightarrow>
          sql_format ''CREATE INDEX {index_name} ON {table_name} ({columns})''
            [(''index_name'', Identifier (xi_name index)),
             (''table_name'', Identifier (tbl_name t)),
             (''columns'', sql_join (SQL '','') col_sql)])"

definition get_index_sql :: "pgsqlite \<Rightarrow> table \<Rightarrow> error + (sql list \<times> pgsqlite)" where
  "get_index_sql st t =
     (case map_err (index_sql t) (tbl_xindexes t) of
        Inl e \<Rightarrow> Inl e
      | Inr sqls \<Rightarrow> Inr (sqls, summary_prepared Indexes (tbl_name t) (length (tbl_xindexes t)) st))"

section \<open>Check-constraint extractor\<close>

text \<open>
  \<open>s.split(sep)\<close> for a one-character separator, \<open>s.strip()\<close> and \<open>s.rstrip(',')\<close>.
  Whitespace is what \<open>str.isspace\<close> accepts below 256: the ASCII whitespace, the
  separators U+001C to U+001F, the next-line control U+0085 and the no-break space
  U+00A0.
\<close>

fun str_split :: "char \<Rightarrow> string \<Rightarrow> string list" where
  "str_split sep [] = [[]]"
| "str_split sep (c # cs) =
     (if c = sep then [] # str_split sep cs
      else (case str_split sep cs of [] \<Rightarrow> [[c]] | x # xs \<Rightarrow> (c # x) # xs))"

definition is_space :: "char \<Rightarrow> bool" where
  "is_space c = (c \<in> set [CHR 0x09, CHR 0x0A, CHR 0x0B, CHR 0x0C, CHR 0x0D,
                           CHR 0x1C, CHR 0x1D, CHR 0x1E, CHR 0x1F, CHR 0x20,
                           CHR 0x85, CHR 0xA0])"

definition str_rstrip :: "(char \<Rightarrow> bool) \<Rightarrow> string \<Rightarrow> string" where
  "str_rstrip p s = rev (dropWhile p (rev s))"

definition str_strip :: "string \<Rightarrow> string" where
  "str_strip s = str_rstrip is_space (dropWhile is_space s)"

text \<open>
  The loop over the lines of one table definition (lines 293 to 301). On a line
  containing "CHECK", \<open>line.index("(")\<close> and \<open>line.rindex(")")\<close> raise \<open>ValueError\<close> when
  the line has no such character; their results only feed \<open>sql_expr\<close>, which is never
  read. Every other line goes to \<open>transpile\<close>.
\<close>

fun scan_lines :: "string list \<Rightarrow> sql list \<Rightarrow> string \<Rightarrow> error + (sql list \<times> string)" where
  "scan_lines [] checks transpile = Inr (checks, transpile)"
| "scan_lines (line # ls) checks transpile =
     (if str_contains ''CHECK'' line then
        (if \<not> str_contains ''('' line then Inl ValueError
         else if \<not> str_contains '')'' line then Inl ValueError
         else (let clean_check_str = ''    '' @ str_rstrip (\<lambda>c. c = CHR '','') (str_strip line)
               in scan_lines ls (checks @ [SQL clean_check_str]) transpile))
      else scan_lines ls checks (transpile @ ''\<newline>'' @ line))"

text \<open>
  One row of \<open>sqlite_master\<close>: the scan, then the rewriting of \<open>[\<close>, \<open>]\<close> and the backtick
  into the double quote (lines 302 and 303), which is applied to \<open>transpile\<close>.
\<close>

definition scan_definition :: "string \<Rightarrow> error + (sql list \<times> string)" where
  "scan_definition text =
     (case scan_lines (str_split CHR ''\<newline>'' text) [] [] of
        Inl e \<Rightarrow> Inl e
      | Inr (checks, transpile) \<Rightarrow>
          Inr (checks,
               str_replace [CHR 0x60] [CHR 0x22]
                 (str_replace '']'' [CHR 0x22] (str_replace ''['' [CHR 0x22] transpile))))"

text \<open>
  \<open>PGSqlite.get_check_constraints\<close> over the rows \<open>(name, sql)\<close> of \<open>sqlite_master\<close>.
  Only the check clauses reach the returned dictionary; \<open>transpile\<close> is a local
  variable that is dropped.
\<close>

fun collect_checks :: "(string \<times> string) list \<Rightarrow> (string \<rightharpoonup> sql list) \<Rightarrow> error + (string \<rightharpoonup> sql list)" where
  "collect_checks [] checks = Inr checks"
| "collect_checks ((name, text) # rows) checks =
     (case scan_definition text of
        Inl e \<Rightarrow> Inl e
      | Inr (cs, transpile) \<Rightarrow> collect_checks rows (checks(name \<mapsto> cs)))"

definition get_check_constraints :: "(string \<times> string) list \<Rightarrow> error + (string \<rightharpoonup> sql list)" where
  "get_check_constraints master = collect_checks master Map.empty"

section \<open>Schema build\<close>

text \<open>
  The source database as the code queries it: the tables of \<open>db.tables\<close>, the rows
  \<open>(name, sql)\<close> of \<open>sqlite_master\<close> with \<open>type = "table"\<close>, and the answers of the
  engine to the two statements the code builds from a table name,
  \<open>f'SELECT count(*) FROM "{table.name}"'\<close> and \<open>f'SELECT * FROM "{table.name}"'\<close>.
  The name is put between the double quotes as it is, so the engine reads another
  statement when the name itself contains a double quote, and may then answer with an
  error (\<open>sqlite3.OperationalError\<close>); an answer is therefore a count or the rows, or
  an exception.
\<close>

record database =
  db_tables :: "table list"
  db_master :: "(string \<times> string) list"
  db_count :: "string \<Rightarrow> error + int"
  db_select :: "string \<Rightarrow> error + pyval list list"

text \<open>
  The loop of \<open>PGSqlite.load_schema\<close> (lines 196 to 202); the table named
  \<open>sqlite_sequence\<close> is skipped.
\<close>

fun load_tables :: "pgsqlite \<Rightarrow> table list \<Rightarrow> error + pgsqlite" where
  "load_tables st [] = Inr st"
| "load_tables st (t # ts) =
     (if tbl_name t = ''sqlite_sequence'' then load_tables st ts
      else
        (case get_table_sql st t of
           Inl e \<Rightarrow> Inl e
         | Inr (ddl, st1) \<Rightarrow>
        (case get_fk_sql (st1\<lparr>tables_sql := tables_sql st1 @ [ddl]\<rparr>) t of
           Inl e \<Rightarrow> Inl e
         | Inr (fks, st2) \<Rightarrow>
        (case get_index_sql (st2\<lparr>fks_sql := fks_sql st2 @ fks\<rparr>) t of
           Inl e \<Rightarrow> Inl e
         | Inr (idxs, st3) \<Rightarrow> load_tables (st3\<lparr>indexes_sql := indexes_sql st3 @ idxs\<rparr>) ts))))"

text \<open>
  \<open>PGSqlite.load_schema\<close>. Dropping the tables of the target beforehand touches the
  target engine only and is not part of the model.
\<close>

definition load_schema :: "pgsqlite \<Rightarrow> database \<Rightarrow> error + pgsqlite" where
  "load_schema st db =
     (case get_check_constraints (db_master db) of
        Inl e \<Rightarrow> Inl e
      | Inr checks \<Rightarrow> load_tables (st\<lparr>checks_sql_by_table := checks\<rparr>) (db_tables db))"

text \<open>The table a \<open>CREATE TABLE\<close> statement of \<open>get_table_sql\<close> creates.\<close>

fun created_table :: "sql \<Rightarrow> string option" where
  "created_table (Composed (Composed [SQL s, Identifier n, SQL s'] # rest)) =
     (if s = ''CREATE TABLE '' then Some n else None)"
| "created_table _ = None"

section \<open>Data load\<close>

text \<open>
  The statement a copy task opens its channel with: \<open>f'COPY "{table.name}" FROM STDIN'\<close>.
\<close>

definition copy_statement :: "table \<Rightarrow> string" where
  "copy_statement t = ''COPY '' @ [CHR 0x22] @ tbl_name t @ [CHR 0x22] @ '' FROM STDIN''"

text \<open>
  The row loop of \<open>PGSqlite.write_table_data\<close> (lines 236 to 249): each row is
  transformed and written, and after every thousandth row the status of the table is
  set to \<open>f"LOADED {rows_copied}"\<close>, written \<open>SLoaded rows_copied\<close> here. The result is the
  rows written to the channel, the object and the count.
\<close>

fun copy_rows ::
  "table \<Rightarrow> pgsqlite \<Rightarrow> nat \<Rightarrow> pyval list list \<Rightarrow> error + (pyval list list \<times> pgsqlite \<times> nat)" where
  "copy_rows t st rows_copied [] = Inr ([], st, rows_copied)"
| "copy_rows t st rows_copied (row # rows) =
     (case transform_row (tbl_columns t) row of
        Inl e \<Rightarrow> Inl e
      | Inr row' \<Rightarrow>
          (case (if Suc rows_copied mod 1000 = 0
                 then summary_set Data (tbl_name t) ''status'' (SLoaded (Suc rows_copied)) st
                 else Inr st) of
             Inl e \<Rightarrow> Inl e
           | Inr st1 \<Rightarrow>
               (case copy_rows t st1 (Suc rows_copied) rows of
                  Inl e \<Rightarrow> Inl e
                | Inr (written, st2, n) \<Rightarrow> Inr (row' # written, st2, n))))"

text \<open>
  \<open>PGSqlite.write_table_data\<close>, the body of one copy task. The task first runs
  \<open>SELECT * FROM "<name>"\<close> on the source (line 225); when that raises, nothing is sent
  to the target. Otherwise it opens the copy channel with the copy statement (line
  234) and only then reads, transforms and writes the rows, and sets the final status.
  The result is the statement the channel was opened with, if any, and the outcome of
  the task: the rows written and the object, or the exception. What the target engine
  answers is outside the model.
\<close>

definition write_table_data ::
  "pgsqlite \<Rightarrow> database \<Rightarrow> table \<Rightarrow> string option \<times> (error + (pyval list list \<times> pgsqlite))" where
  "write_table_data st db t =
     (case db_select db (tbl_name t) of
        Inl e \<Rightarrow> (None, Inl e)
      | Inr rows \<Rightarrow>
          (Some (copy_statement t),
           (case copy_rows t st 0 rows of
              Inl e \<Rightarrow> Inl e
            | Inr (written, st1, n) \<Rightarrow>
                (case summary_set Data (tbl_name t) ''status'' (SLoaded n) st1 of
                   Inl e \<Rightarrow> Inl e
                 | Inr st2 \<Rightarrow> Inr (written, st2)))))"

text \<open>
  \<open>PGSqlite.load_data_to_postgres\<close>. The first loop (lines 260 to 266) runs the count
  statement of every table of \<open>db.tables\<close> in turn and writes the data entry of the
  table; a statement that raises ends the method there. Then one \<open>write_table_data\<close>
  task per table of \<open>db.tables\<close> is created and handed to \<open>asyncio.gather\<close> (line 270).
  The result is the object after the first loop and the tables of the tasks, in the
  order of their creation, or the exception of the first loop.
\<close>

definition prepare_data :: "int \<Rightarrow> pgsqlite \<Rightarrow> table \<Rightarrow> pgsqlite" where
  "prepare_data row_count st t =
     st\<lparr>summary := (summary st)(Data := (summary st Data)
        (tbl_name t \<mapsto> [''row_count'' \<mapsto> SInt row_count, ''status'' \<mapsto> SStr ''PREPARED'']))\<rparr>"

fun prepare_all :: "database \<Rightarrow> pgsqlite \<Rightarrow> table list \<Rightarrow> error + pgsqlite" where
  "prepare_all db st [] = Inr st"
| "prepare_all db st (t # ts) =
     (case db_count db (tbl_name t) of
        Inl e \<Rightarrow> Inl e
      | Inr row_count \<Rightarrow> prepare_all db (prepare_data row_count st t) ts)"

definition load_data_to_postgres :: "pgsqlite \<Rightarrow> database \<Rightarrow> error + (pgsqlite \<times> table list)" where
  "load_data_to_postgres st db =
     (case prepare_all db st (db_tables db) of
        Inl e \<Rightarrow> Inl e
      | Inr st1 \<Rightarrow> Inr (st1, [table. table \<leftarrow> db_tables db]))"

section \<open>Auxiliary notions for the statements\<close>

text \<open>A type string without braces: \<open>format\<close> reads it as literal text.\<close>

definition brace_free :: "string \<Rightarrow> bool" where
  "brace_free s = (CHR ''{'' \<notin> set s \<and> CHR ''}'' \<notin> set s)"

text \<open>
  The check extractor in the spec's words: the lines of a definition that contain
  "CHECK", each trimmed and with its trailing commas stripped.
\<close>

definition check_lines :: "string \<Rightarrow> string list" where
  "check_lines text = filter (str_contains ''CHECK'') (str_split CHR ''\<newline>'' text)"

definition check_clause :: "string \<Rightarrow> sql" where
  "check_clause line = SQL (''    '' @ str_rstrip (\<lambda>c. c = CHR '','') (str_strip line))"

text \<open>An index column without a resolvable name.\<close>

definition unnamed :: "xindex_column \<Rightarrow> bool" where
  "unnamed col = (xic_name col = None \<or> xic_name col = Some [])"

section \<open>Example catalog\<close>

text \<open>
  The table of the spec's end-to-end scenario,
  \<open>Users(id INTEGER PK, active BOOLEAN NOT NULL, nickname NVARCHAR(20))\<close>.
\<close>

definition example_users :: table where
  "example_users =
     \<lparr>tbl_name = ''Users'',
      tbl_columns =
        [\<lparr>col_cid = 0, col_name = ''id'', col_type = ''INTEGER'', col_notnull = False,
          col_default_value = None\<rparr>,
         \<lparr>col_cid = 1, col_name = ''active'', col_type = ''BOOLEAN'', col_notnull = True,
          col_default_value = None\<rparr>,
         \<lparr>col_cid = 2, col_name = ''nickname'', col_type = ''NVARCHAR(20)'', col_notnull = False,
          col_default_value = None\<rparr>],
      tbl_pks = [''id''], tbl_use_rowid = False, tbl_foreign_keys = [], tbl_xindexes = []\<rparr>"

text \<open>
  A database with that table and the \<open>sqlite_sequence\<close> table that SQLite keeps for
  \<open>AUTOINCREMENT\<close> columns.
\<close>

definition example_sequence :: table where
  "example_sequence =
     \<lparr>tbl_name = ''sqlite_sequence'',
      tbl_columns =
        [\<lparr>col_cid = 0, col_name = ''name'', col_type = [], col_notnull = False,
          col_default_value = None\<rparr>,
         \<lparr>col_cid = 1, col_name = ''seq'', col_type = [], col_notnull = False,
          col_default_value = None\<rparr>],
      tbl_pks = [''rowid''], tbl_use_rowid = True, tbl_foreign_keys = [], tbl_xindexes = []\<rparr>"

definition example_database :: database where
  "example_database =
     \<lparr>db_tables = [example_users, example_sequence],
      db_master =
        [(''Users'',
          ''CREATE TABLE Users (id INTEGER PRIMARY KEY AUTOINCREMENT, active BOOLEAN NOT NULL, nickname NVARCHAR(20))''),
         (''sqlite_sequence'', ''CREATE TABLE sqlite_sequence(name,seq)'')],
      db_count = (\<lambda>n. if n = ''Users'' \<or> n = ''sqlite_sequence'' then Inr 1
                       else Inl OperationalError),
      db_select = (\<lambda>n. if n = ''Users'' then Inr [[PInt 1, PInt 1, PStr []]]
                        else if n = ''sqlite_sequence'' then Inr [[PStr ''Users'', PInt 1]]
                        else Inl OperationalError)\<rparr>"

text \<open>
  A table \<open>Notes(n INTEGER, s TEXT, t TEXT NOT NULL)\<close> holding the row \<open>(0, '', '')\<close>.
\<close>

definition example_notes :: table where
  "example_notes =
     \<lparr>tbl_name = ''Notes'',
      tbl_columns =
        [\<lparr>col_cid = 0, col_name = ''n'', col_type = ''INTEGER'', col_notnull = False,
          col_default_value = None\<rparr>,
         \<lparr>col_cid = 1, col_name = ''s'', col_type = ''TEXT'', col_notnull = False,
          col_default_value = None\<rparr>,
         \<lparr>col_cid = 2, col_name = ''t'', col_type = ''TEXT'', col_notnull = True,
          col_default_value = None\<rparr>],
      tbl_pks = [''rowid''], tbl_use_rowid = True, tbl_foreign_keys = [], tbl_xindexes = []\<rparr>"

definition example_notes_database :: database where
  "example_notes_database =
     \<lparr>db_tables = [example_notes],
      db_master = [(''Notes'', ''CREATE TABLE Notes (n INTEGER, s TEXT, t TEXT NOT NULL)'')],
      db_count = (\<lambda>n. if n = ''Notes'' then Inr 1 else Inl OperationalError),
      db_select = (\<lambda>n. if n = ''Notes'' then Inr [[PInt 0, PStr [], PStr []]]
                        else Inl OperationalError)\<rparr>"

text \<open>
  A database whose first table has a double quote in its name, \<open>a"b\<close>: the two
  statements built from that name are not well-formed, and the engine answers them with
  an error.
\<close>

definition example_quoted :: table where
  "example_quoted =
     \<lparr>tbl_name = ''a'' @ [CHR 0x22] @ ''b'',
      tbl_columns =
        [\<lparr>col_cid = 0, col_name = ''x'', col_type = ''INTEGER'', col_notnull = False,
          col_default_value = None\<rparr>],
      tbl_pks = [''rowid''], tbl_use_rowid = True, tbl_foreign_keys = [], tbl_xindexes = []\<rparr>"

definition example_quoted_database :: database where
  "example_quoted_database =
     \<lparr>db_tables = [example_quoted, example_sequence],
      db_master =
        [(''a'' @ [CHR 0x22] @ ''b'', ''CREATE TABLE [a'' @ [CHR 0x22] @ ''b] (x INTEGER)''),
         (''sqlite_sequence'', ''CREATE TABLE sqlite_sequence(name,seq)'')],
      db_count = (\<lambda>n. if n = ''sqlite_sequence'' then Inr 0 else Inl OperationalError),
      db_select = (\<lambda>n. if n = ''sqlite_sequence'' then Inr [] else Inl OperationalError)\<rparr>"

section \<open>Helper lemmas on strings\<close>

lemma str_contains_iff: "str_contains sub s = (\<exists>ps ss. s = ps @ sub @ ss)"
proof (induction s)
  case Nil
  then show ?case by auto
next
  case (Cons c cs)
  show ?case
  proof
    assume "str_contains sub (c # cs)"
    then consider "prefix sub (c # cs)" | "str_contains sub cs" by auto
    then show "\<exists>ps ss. c # cs = ps @ sub @ ss"
    proof cases
      case 1
      then obtain ss where "c # cs = sub @ ss" by (auto simp: prefix_def)
      then have "c # cs = [] @ sub @ ss" by simp
      then show ?thesis by blast
    next
      case 2
      with Cons.IH obtain ps ss where "cs = ps @ sub @ ss" by auto
      then have "c # cs = (c # ps) @ sub @ ss" by simp
      then show ?thesis by blast
    qed
  next
    assume "\<exists>ps ss. c # cs = ps @ sub @ ss"
    then obtain ps ss where e: "c # cs = ps @ sub @ ss" by auto
    show "str_contains sub (c # cs)"
    proof (cases ps)
      case Nil
      with e have "prefix sub (c # cs)" by (simp add: prefix_def)
      then show ?thesis by simp
    next
      case (Cons p ps')
      with e have "cs = ps' @ sub @ ss" by simp
      with Cons.IH have "str_contains sub cs" by blast
      then show ?thesis by simp
    qed
  qed
qed

lemma str_replace_absent:
  "old \<noteq> [] \<Longrightarrow> \<not> str_contains old s \<Longrightarrow> str_replace old new s = s"
proof (induction s)
  case Nil
  then show ?case by (simp add: str_replace.simps)
next
  case (Cons c cs)
  from Cons.prems have np: "\<not> prefix old (c # cs)" and nc: "\<not> str_contains old cs"
    by auto
  from Cons.IH [OF Cons.prems(1) nc] have "str_replace old new cs = cs" .
  with np Cons.prems(1) show ?case
    by (subst str_replace.simps) simp
qed

lemma str_replace_at_head:
  "old \<noteq> [] \<Longrightarrow> str_replace old new (old @ s) = new @ str_replace old new s"
  by (subst str_replace.simps) simp

lemma str_replace_le:
  "length new < length old \<Longrightarrow> length (str_replace old new s) \<le> length s"
proof (induction old new s rule: str_replace.induct)
  case (1 old new s)
  from "1.prems" have ne: "old \<noteq> []" by auto
  show ?case
  proof (cases "s = []")
    case True
    with ne show ?thesis by (subst str_replace.simps) simp
  next
    case False
    show ?thesis
    proof (cases "prefix old s")
      case True
      then have len: "length old \<le> length s" by (rule prefix_length_le)
      from "1.IH"(1) [OF ne False True "1.prems"]
      have "length (str_replace old new (drop (length old) s)) \<le> length s - length old"
        by simp
      with len "1.prems" ne False True show ?thesis
        by (subst str_replace.simps) simp
    next
      case np: False
      from "1.IH"(2) [OF ne False np "1.prems"]
      have "length (str_replace old new (tl s)) \<le> length s - 1" by simp
      with ne False np show ?thesis
        by (subst str_replace.simps) (cases s; simp)
    qed
  qed
qed

lemma str_replace_shrinks:
  "length new < length old \<Longrightarrow> str_contains old s \<Longrightarrow>
     length (str_replace old new s) < length s"
proof (induction s)
  case Nil
  then show ?case by simp
next
  case (Cons c cs)
  from Cons.prems have ne: "old \<noteq> []" by auto
  show ?case
  proof (cases "prefix old (c # cs)")
    case True
    then have len: "length old \<le> length (c # cs)" by (rule prefix_length_le)
    have "length (str_replace old new (drop (length old) (c # cs))) \<le> length (c # cs) - length old"
      using str_replace_le [OF Cons.prems(1), of "drop (length old) (c # cs)"] by simp
    with len Cons.prems(1) ne True show ?thesis
      by (subst str_replace.simps) simp
  next
    case False
    with Cons.prems have "str_contains old cs" by simp
    from Cons.IH [OF Cons.prems(1) this] ne False show ?thesis
      by (subst str_replace.simps) simp
  qed
qed

lemma remap_fixed:
  "\<not> str_contains ''STRING'' s \<Longrightarrow> \<not> str_contains ''NVARCHAR'' s \<Longrightarrow>
   \<not> str_contains ''DATETIME'' s \<Longrightarrow> \<not> str_contains ''BLOB'' s \<Longrightarrow> remap_column_type s = s"
  by (simp add: remap_column_type_def)

lemma remap_TEXT: "remap_column_type ''TEXT'' = ''TEXT''"
  by (simp add: remap_column_type_def)
lemma remap_TIMESTAMP: "remap_column_type ''TIMESTAMP'' = ''TIMESTAMP''"
  by (simp add: remap_column_type_def)
lemma remap_BYTEA: "remap_column_type ''BYTEA'' = ''BYTEA''"
  by (simp add: remap_column_type_def)

section \<open>Type mapper: the rules\<close>

text \<open>
  C1, as the code has it. \<open>remap_column_type\<close> is a total function on strings (it has no
  error branch), and its rules apply in the order STRING, NVARCHAR, DATETIME, BLOB, the
  first match deciding alone: an input containing "STRING" gives "TEXT"; an input
  containing "NVARCHAR" and not "STRING" gives the input with every "NVARCHAR" replaced by
  "VARCHAR", so that "NVARCHAR" followed by a qualifier free of that token gives "VARCHAR"
  followed by the same qualifier; an input containing "DATETIME" and none of the two
  earlier tokens gives "TIMESTAMP"; an input containing "BLOB" and none of the three
  earlier tokens gives "BYTEA".
\<close>

theorem remap_column_type_first_match:
  "(str_contains ''STRING'' s \<longrightarrow> remap_column_type s = ''TEXT'') \<and>
   (\<not> str_contains ''STRING'' s \<and> str_contains ''NVARCHAR'' s \<longrightarrow>
      remap_column_type s = str_replace ''NVARCHAR'' ''VARCHAR'' s) \<and>
   (\<not> str_contains ''STRING'' (''NVARCHAR'' @ q) \<and> \<not> str_contains ''NVARCHAR'' q \<longrightarrow>
      remap_column_type (''NVARCHAR'' @ q) = ''VARCHAR'' @ q) \<and>
   (\<not> str_contains ''STRING'' s \<and> \<not> str_contains ''NVARCHAR'' s \<and>
    str_contains ''DATETIME'' s \<longrightarrow> remap_column_type s = ''TIMESTAMP'') \<and>
   (\<not> str_contains ''STRING'' s \<and> \<not> str_contains ''NVARCHAR'' s \<and>
    \<not> str_contains ''DATETIME'' s \<and> str_contains ''BLOB'' s \<longrightarrow>
      remap_column_type s = ''BYTEA'')"
proof -
  have "remap_column_type (''NVARCHAR'' @ q) = ''VARCHAR'' @ q"
    if a: "\<not> str_contains ''STRING'' (''NVARCHAR'' @ q)" and b: "\<not> str_contains ''NVARCHAR'' q"
  proof -
    have c: "str_contains ''NVARCHAR'' (''NVARCHAR'' @ q)"
      unfolding str_contains_iff by (rule exI [of _ "[]"]) auto
    have "str_replace ''NVARCHAR'' ''VARCHAR'' (''NVARCHAR'' @ q) = ''VARCHAR'' @ q"
      using str_replace_at_head [of "''NVARCHAR''" "''VARCHAR''" q]
        str_replace_absent [of "''NVARCHAR''" q "''VARCHAR''"] b by simp
    with a c show ?thesis unfolding remap_column_type_def by (simp only: if_True if_False)
  qed
  then show ?thesis by (simp add: remap_column_type_def)
qed

theorem remap_column_type_first_match_witness:
  "remap_column_type ''STRING(8)'' = ''TEXT'' \<and>
   remap_column_type ''NVARCHAR(20)'' = ''VARCHAR(20)'' \<and>
   remap_column_type ''DATETIME'' = ''TIMESTAMP'' \<and>
   remap_column_type ''BLOB'' = ''BYTEA''"
  using remap_column_type_first_match [of "''STRING(8)''" "''(20)''"] remap_column_type_first_match [of "''NVARCHAR(20)''" "''(20)''"]
    remap_column_type_first_match [of "''DATETIME''" "''(20)''"] remap_column_type_first_match [of "''BLOB''" "''(20)''"]
  by (simp add: str_replace.simps)

text \<open>
  C1 as stated fails: "BLOB STRING" contains "BLOB", and the STRING rule, which comes
  first, maps it to "TEXT".
\<close>

theorem remap_column_type_blob_counterexample: "str_contains ''BLOB'' ''BLOB STRING'' \<and> remap_column_type ''BLOB STRING'' \<noteq> ''BYTEA''"
  by (simp add: remap_column_type_def)

text \<open>
  C8, as the code has it. \<open>remap_column_type\<close> applied twice equals \<open>remap_column_type\<close>
  applied once on every input that contains "STRING" or does not contain "NVARCHAR"; an
  input matching none of the four rules is returned unchanged; and in general the second
  application changes nothing exactly when the first result contains none of the four
  tokens.
\<close>

theorem remap_column_type_idempotent_unless_nvarchar:
  "(str_contains ''STRING'' s \<or> \<not> str_contains ''NVARCHAR'' s \<longrightarrow>
      remap_column_type (remap_column_type s) = remap_column_type s) \<and>
   (\<not> str_contains ''STRING'' s \<and> \<not> str_contains ''NVARCHAR'' s \<and>
    \<not> str_contains ''DATETIME'' s \<and> \<not> str_contains ''BLOB'' s \<longrightarrow> remap_column_type s = s) \<and>
   (remap_column_type (remap_column_type s) = remap_column_type s \<longleftrightarrow>
      \<not> str_contains ''STRING'' (remap_column_type s) \<and>
      \<not> str_contains ''NVARCHAR'' (remap_column_type s) \<and>
      \<not> str_contains ''DATETIME'' (remap_column_type s) \<and>
      \<not> str_contains ''BLOB'' (remap_column_type s))"
proof -
  have fix_iff: "remap_column_type t = t \<longleftrightarrow>
      \<not> str_contains ''STRING'' t \<and> \<not> str_contains ''NVARCHAR'' t \<and>
      \<not> str_contains ''DATETIME'' t \<and> \<not> str_contains ''BLOB'' t" for t
  proof -
    have "str_replace ''NVARCHAR'' ''VARCHAR'' t \<noteq> t" if "str_contains ''NVARCHAR'' t"
      using str_replace_shrinks [of "''VARCHAR''" "''NVARCHAR''" t] that by auto
    then show ?thesis
      by (auto simp: remap_column_type_def)
  qed
  have a: "remap_column_type (remap_column_type s) = remap_column_type s"
    if "str_contains ''STRING'' s \<or> \<not> str_contains ''NVARCHAR'' s"
    using that remap_TEXT remap_TIMESTAMP remap_BYTEA
    by (auto simp: remap_column_type_def)
  show ?thesis using a fix_iff [of "remap_column_type s"] remap_fixed [of s] by blast
qed

theorem remap_column_type_idempotent_unless_nvarchar_witness:
  "remap_column_type (remap_column_type ''DATETIME'') = remap_column_type ''DATETIME'' \<and>
   remap_column_type ''INTEGER'' = ''INTEGER'' \<and>
   remap_column_type (remap_column_type ''BLOB STRING'') = remap_column_type ''BLOB STRING''"
  using remap_column_type_idempotent_unless_nvarchar [of "''DATETIME''"]
    remap_column_type_idempotent_unless_nvarchar [of "''INTEGER''"]
    remap_column_type_idempotent_unless_nvarchar [of "''BLOB STRING''"]
  by simp

text \<open>
  C8 as stated fails: "NNVARCHAR" is mapped to "NVARCHAR", which is mapped to "VARCHAR".
\<close>

theorem remap_column_type_idempotent_counterexample: "remap_column_type (remap_column_type ''NNVARCHAR'') \<noteq> remap_column_type ''NNVARCHAR''"
  by (simp add: remap_column_type_def str_replace.simps)

section \<open>Boolean transformer: test vectors\<close>

text \<open>
  C2. The five vectors: \<open>0\<close> in a nullable column gives \<open>None\<close>; \<open>0\<close> in a not-null
  column raises (the code's \<open>Exception\<close>, the spec's InvariantViolation); \<open>1\<close> in a
  not-null column gives "TRUE"; "true" in a nullable column gives "TRUE"; the empty
  string in a nullable column gives \<open>None\<close>.
\<close>

theorem boolean_transformer_vectors:
  "boolean_transformer (PInt 0) True = Inr PNone \<and>
   boolean_transformer (PInt 0) False = Inl (Exception ''Value is None but column is not nullable'') \<and>
   boolean_transformer (PInt 1) False = Inr (PStr ''TRUE'') \<and>
   boolean_transformer (PStr ''true'') True = Inr (PStr ''TRUE'') \<and>
   boolean_transformer (PStr '''') True = Inr PNone"
  by (simp add: boolean_transformer_def str_lower_char_def lower_char_def)

text \<open>
  C3 at the input \<open>2\<close>: the value is truthy and differs from \<open>1\<close>, so the code calls
  \<open>lower()\<close> on an \<open>int\<close>, which raises \<open>AttributeError\<close>, whatever the nullability.
\<close>

theorem boolean_transformer_two_raises:
  "py_truthy (PInt 2) \<and>
   boolean_transformer (PInt 2) True = Inl AttributeError \<and>
   boolean_transformer (PInt 2) False = Inl AttributeError"
  by (simp add: boolean_transformer_def)

section \<open>Row transformation: the empty-coercion rule\<close>

lemma transform_row_length:
  "transform_row cols row = Inr row' \<Longrightarrow> length row' = length row"
proof (induction cols row arbitrary: row' rule: transform_row.induct)
  case (1 row)
  then show ?case by simp
next
  case (2 c cs)
  then show ?case by (simp split: if_splits)
next
  case (3 c cs v vs)
  then show ?case by (auto split: sum.splits)
qed

lemma transform_row_cell:
  "transform_row cols row = Inr row' \<Longrightarrow> i < length cols \<Longrightarrow> i < length row \<Longrightarrow>
     transform_cell (cols ! i) (row ! i) = Inr (row' ! i)"
proof (induction cols row arbitrary: row' i rule: transform_row.induct)
  case (1 row)
  then show ?case by simp
next
  case (2 c cs)
  then show ?case by simp
next
  case (3 c cs v vs)
  from "3.prems"(1) obtain w ws where w: "transform_cell c v = Inr w"
    and ws: "transform_row cs vs = Inr ws" and r: "row' = w # ws"
    by (auto split: sum.splits)
  show ?case
  proof (cases i)
    case 0
    with w r show ?thesis by simp
  next
    case (Suc j)
    with "3.prems" have "j < length cs" "j < length vs" by simp_all
    from "3.IH" [OF w ws this] Suc r show ?thesis by simp
  qed
qed

lemma transform_row_total:
  "length cols \<le> length row \<Longrightarrow> \<forall>c \<in> set cols. col_type c \<noteq> ''BOOLEAN'' \<Longrightarrow>
     \<exists>row'. transform_row cols row = Inr row'"
proof (induction cols row rule: transform_row.induct)
  case (1 row)
  then show ?case by simp
next
  case (2 c cs)
  then show ?case by simp
next
  case (3 c cs v vs)
  from "3.prems" have cell: "transform_cell c v = Inr (coerce_empty c v)"
    by (simp add: transform_cell_def apply_transformer_def)
  from "3.IH" [OF cell] "3.prems" obtain ws where "transform_row cs vs = Inr ws" by auto
  with cell show ?case by simp
qed

text \<open>The rule on one cell of a transformed row.\<close>

lemma transform_row_rule:
  assumes "transform_row cols row = Inr row'" and "i < length cols" and "i < length row"
  shows "\<exists>w. apply_transformer (cols ! i) (row ! i) = Inr w \<and>
         (col_type (cols ! i) \<noteq> ''BOOLEAN'' \<longrightarrow> w = row ! i) \<and>
         (\<not> col_notnull (cols ! i) \<and> \<not> py_truthy w \<and> \<not> py_eq_int w 0 \<longrightarrow> row' ! i = PNone) \<and>
         (py_eq_int w 0 \<longrightarrow> row' ! i = w) \<and>
         (py_truthy w \<longrightarrow> row' ! i = w) \<and>
         (col_notnull (cols ! i) \<longrightarrow> row' ! i = w)"
proof -
  from assms have "transform_cell (cols ! i) (row ! i) = Inr (row' ! i)"
    by (rule transform_row_cell)
  then obtain w where w: "apply_transformer (cols ! i) (row ! i) = Inr w"
    and r: "row' ! i = coerce_empty (cols ! i) w"
    by (auto simp: transform_cell_def split: sum.splits)
  have "col_type (cols ! i) \<noteq> ''BOOLEAN'' \<longrightarrow> w = row ! i"
    using w by (auto simp: apply_transformer_def split: if_splits)
  moreover have "\<not> col_notnull (cols ! i) \<and> \<not> py_truthy w \<and> \<not> py_eq_int w 0 \<longrightarrow> row' ! i = PNone"
    using r by (simp add: coerce_empty_def)
  moreover have "py_eq_int w 0 \<longrightarrow> row' ! i = w"
    using r by (simp add: coerce_empty_def)
  moreover have "py_truthy w \<longrightarrow> row' ! i = w"
    using r by (simp add: coerce_empty_def)
  moreover have "col_notnull (cols ! i) \<longrightarrow> row' ! i = w"
    using r by (simp add: coerce_empty_def)
  ultimately show ?thesis using w by blast
qed

text \<open>The rows a copy task writes are the transformed rows of the cursor, in order.\<close>

lemma copy_rows_written:
  "copy_rows t st n rows = Inr (written, st', m) \<Longrightarrow>
     list_all2 (\<lambda>row row'. transform_row (tbl_columns t) row = Inr row') rows written"
proof (induction rows arbitrary: st n written)
  case Nil
  then show ?case by simp
next
  case (Cons row rows)
  from Cons.prems obtain row' st1 ws where
    r: "transform_row (tbl_columns t) row = Inr row'" and
    c: "copy_rows t st1 (Suc n) rows = Inr (ws, st', m)" and
    w: "written = row' # ws"
    by (auto split: sum.splits if_splits)
  from Cons.IH [OF c] r w show ?case by simp
qed

lemma summary_set_present:
  "summary st cat t \<noteq> None \<Longrightarrow>
     \<exists>st'. summary_set cat t k v st = Inr st' \<and> summary st' cat t \<noteq> None"
  by (auto simp: summary_set_def)

lemma copy_rows_total:
  "summary st Data (tbl_name t) \<noteq> None \<Longrightarrow>
   \<forall>row \<in> set rows. \<exists>row'. transform_row (tbl_columns t) row = Inr row' \<Longrightarrow>
     \<exists>written st' m. copy_rows t st n rows = Inr (written, st', m) \<and>
        summary st' Data (tbl_name t) \<noteq> None"
proof (induction rows arbitrary: st n)
  case Nil
  then show ?case by simp
next
  case (Cons row rows)
  from Cons.prems(2) obtain row' where r: "transform_row (tbl_columns t) row = Inr row'"
    by auto
  obtain st1 where s: "(if Suc n mod 1000 = 0
        then summary_set Data (tbl_name t) ''status'' (SLoaded (Suc n)) st
        else Inr st) = Inr st1" and p: "summary st1 Data (tbl_name t) \<noteq> None"
    using summary_set_present [OF Cons.prems(1), of "''status''" "SLoaded (Suc n)"]
      Cons.prems(1) by (cases "Suc n mod 1000 = 0") auto
  from Cons.prems(2) have "\<forall>row \<in> set rows. \<exists>row'. transform_row (tbl_columns t) row = Inr row'"
    by simp
  from Cons.IH [OF p this, of "Suc n"] obtain ws st' m where
    "copy_rows t st1 (Suc n) rows = Inr (ws, st', m)" and "summary st' Data (tbl_name t) \<noteq> None"
    by blast
  with r s show ?case by simp
qed

lemma write_table_data_total:
  assumes "db_select db (tbl_name t) = Inr rows"
    and "summary st Data (tbl_name t) \<noteq> None"
    and "\<forall>row \<in> set rows. \<exists>row'. transform_row (tbl_columns t) row = Inr row'"
  shows "\<exists>written st'. write_table_data st db t = (Some (copy_statement t), Inr (written, st'))"
proof -
  from copy_rows_total [OF assms(2,3), of 0] obtain written st1 m where
    c: "copy_rows t st 0 rows = Inr (written, st1, m)" and
    p: "summary st1 Data (tbl_name t) \<noteq> None" by blast
  from summary_set_present [OF p, of "''status''" "SLoaded m"] obtain st2 where
    "summary_set Data (tbl_name t) ''status'' (SLoaded m) st1 = Inr st2" by blast
  with c assms(1) show ?thesis by (simp add: write_table_data_def)
qed

lemma write_table_data_written:
  assumes "db_select db (tbl_name t) = Inr rows"
    and "snd (write_table_data st db t) = Inr (written, st')"
  shows "list_all2 (\<lambda>row row'. transform_row (tbl_columns t) row = Inr row') rows written"
proof -
  from assms obtain st1 m where "copy_rows t st 0 rows = Inr (written, st1, m)"
    by (auto simp: write_table_data_def split: sum.splits)
  then show ?thesis by (rule copy_rows_written)
qed

text \<open>
  C4. A copy task whose source query is answered, whose data entry exists, and whose
  table has no \<open>BOOLEAN\<close> column and rows at least as long as the column list, opens
  its channel and writes its rows without raising. Whenever a copy task completes, it
  has written one row per row of the cursor, in order and of the same length, and the
  cell written for row \<open>k\<close> under column \<open>i\<close> is obtained from the value \<open>w\<close> the
  type transformer returns there (the raw value itself unless the column type is
  \<open>BOOLEAN\<close>): in a nullable column \<open>w\<close> becomes \<open>None\<close> when it is falsy and not equal
  to zero; a \<open>w\<close> equal to zero is transmitted unchanged, and so is a truthy \<open>w\<close>; in a
  not-null column \<open>w\<close> is transmitted unchanged.
\<close>

theorem empty_coercion_rule:
  "(db_select db (tbl_name t) = Inr rows \<and> summary st Data (tbl_name t) \<noteq> None \<and>
    (\<forall>row \<in> set rows. length (tbl_columns t) \<le> length row) \<and>
    (\<forall>c \<in> set (tbl_columns t). col_type c \<noteq> ''BOOLEAN'') \<longrightarrow>
      (\<exists>written st'. write_table_data st db t = (Some (copy_statement t), Inr (written, st')))) \<and>
   (db_select db (tbl_name t) = Inr rows \<and>
    snd (write_table_data st db t) = Inr (written, st') \<and>
    k < length rows \<and> i < length (tbl_columns t) \<and> i < length (rows ! k) \<longrightarrow>
      length written = length rows \<and> length (written ! k) = length (rows ! k) \<and>
      (\<exists>w. apply_transformer (tbl_columns t ! i) (rows ! k ! i) = Inr w \<and>
         (col_type (tbl_columns t ! i) \<noteq> ''BOOLEAN'' \<longrightarrow> w = rows ! k ! i) \<and>
         (\<not> col_notnull (tbl_columns t ! i) \<and> \<not> py_truthy w \<and> \<not> py_eq_int w 0 \<longrightarrow>
            written ! k ! i = PNone) \<and>
         (py_eq_int w 0 \<longrightarrow> written ! k ! i = w) \<and>
         (py_truthy w \<longrightarrow> written ! k ! i = w) \<and>
         (col_notnull (tbl_columns t ! i) \<longrightarrow> written ! k ! i = w)))"
proof (intro conjI impI)
  assume a: "db_select db (tbl_name t) = Inr rows \<and> summary st Data (tbl_name t) \<noteq> None \<and>
    (\<forall>row \<in> set rows. length (tbl_columns t) \<le> length row) \<and>
    (\<forall>c \<in> set (tbl_columns t). col_type c \<noteq> ''BOOLEAN'')"
  then have "\<forall>row \<in> set rows. \<exists>row'. transform_row (tbl_columns t) row = Inr row'"
    using transform_row_total by blast
  with a show "\<exists>written st'. write_table_data st db t = (Some (copy_statement t), Inr (written, st'))"
    using write_table_data_total by blast
next
  assume a: "db_select db (tbl_name t) = Inr rows \<and>
    snd (write_table_data st db t) = Inr (written, st') \<and>
    k < length rows \<and> i < length (tbl_columns t) \<and> i < length (rows ! k)"
  then have la: "list_all2 (\<lambda>row row'. transform_row (tbl_columns t) row = Inr row') rows written"
    using write_table_data_written by blast
  then show len: "length written = length rows"
    by (simp add: list_all2_lengthD)
  from la a have tr: "transform_row (tbl_columns t) (rows ! k) = Inr (written ! k)"
    by (auto simp: list_all2_conv_all_nth)
  then show "length (written ! k) = length (rows ! k)"
    by (rule transform_row_length)
  from a have "i < length (tbl_columns t)" "i < length (rows ! k)" by simp_all
  from transform_row_rule [OF tr this]
  show "\<exists>w. apply_transformer (tbl_columns t ! i) (rows ! k ! i) = Inr w \<and>
         (col_type (tbl_columns t ! i) \<noteq> ''BOOLEAN'' \<longrightarrow> w = rows ! k ! i) \<and>
         (\<not> col_notnull (tbl_columns t ! i) \<and> \<not> py_truthy w \<and> \<not> py_eq_int w 0 \<longrightarrow>
            written ! k ! i = PNone) \<and>
         (py_eq_int w 0 \<longrightarrow> written ! k ! i = w) \<and>
         (py_truthy w \<longrightarrow> written ! k ! i = w) \<and>
         (col_notnull (tbl_columns t ! i) \<longrightarrow> written ! k ! i = w)" .
qed

theorem empty_coercion_rule_witness:
  "\<exists>written st'.
     write_table_data (prepare_data 1 init example_notes) example_notes_database example_notes =
       (Some (''COPY '' @ [CHR 0x22] @ ''Notes'' @ [CHR 0x22] @ '' FROM STDIN''),
        Inr (written, st')) \<and>
     length written = 1 \<and> length (written ! 0) = 3 \<and>
     written ! 0 ! 0 = PInt 0 \<and> written ! 0 ! 1 = PNone \<and> written ! 0 ! 2 = PStr []"
proof -
  let ?st = "prepare_data 1 init example_notes"
  let ?rows = "[[PInt 0, PStr [], PStr []]]"
  have sel: "db_select example_notes_database (tbl_name example_notes) = Inr ?rows"
    by (simp add: example_notes_database_def example_notes_def)
  have pre: "db_select example_notes_database (tbl_name example_notes) = Inr ?rows \<and>
    summary ?st Data (tbl_name example_notes) \<noteq> None \<and>
    (\<forall>row \<in> set ?rows. length (tbl_columns example_notes) \<le> length row) \<and>
    (\<forall>c \<in> set (tbl_columns example_notes). col_type c \<noteq> ''BOOLEAN'')"
    using sel by (simp add: prepare_data_def example_notes_def)
  with empty_coercion_rule [of example_notes_database example_notes ?rows ?st]
  obtain written st' where
    w: "write_table_data ?st example_notes_database example_notes =
          (Some (copy_statement example_notes), Inr (written, st'))"
    by blast
  then have s: "snd (write_table_data ?st example_notes_database example_notes) = Inr (written, st')"
    by simp
  have cell: "length written = length ?rows \<and> length (written ! 0) = length (?rows ! 0) \<and>
      (\<exists>w. apply_transformer (tbl_columns example_notes ! i) (?rows ! 0 ! i) = Inr w \<and>
         (col_type (tbl_columns example_notes ! i) \<noteq> ''BOOLEAN'' \<longrightarrow> w = ?rows ! 0 ! i) \<and>
         (\<not> col_notnull (tbl_columns example_notes ! i) \<and> \<not> py_truthy w \<and> \<not> py_eq_int w 0 \<longrightarrow>
            written ! 0 ! i = PNone) \<and>
         (py_eq_int w 0 \<longrightarrow> written ! 0 ! i = w) \<and>
         (py_truthy w \<longrightarrow> written ! 0 ! i = w) \<and>
         (col_notnull (tbl_columns example_notes ! i) \<longrightarrow> written ! 0 ! i = w))"
    if "i < 3" for i
    using empty_coercion_rule
      [of example_notes_database example_notes ?rows ?st written st' 0 i] sel s that
    by (simp add: example_notes_def)
  from cell [of 0] have c0: "written ! 0 ! 0 = PInt 0" and l: "length written = 1"
    and l0: "length (written ! 0) = 3"
    by (auto simp: example_notes_def)
  from cell [of 1] have c1: "written ! 0 ! 1 = PNone"
    by (auto simp: example_notes_def)
  from cell [of 2] have c2: "written ! 0 ! 2 = PStr []"
    by (auto simp: example_notes_def)
  from w c0 c1 c2 l l0 show ?thesis
    by (simp add: copy_statement_def example_notes_def)
qed

text \<open>
  The row of the spec's end-to-end scenario: \<open>(1, 1, '')\<close> is written as
  \<open>(1, "TRUE", None)\<close>.
\<close>

lemma example_row_transformed:
  "transform_row (tbl_columns example_users) [PInt 1, PInt 1, PStr []] =
     Inr [PInt 1, PStr ''TRUE'', PNone]"
  by (simp add: example_users_def transform_cell_def apply_transformer_def coerce_empty_def
      boolean_transformer_def)

section \<open>Helper lemmas on formatting and on the DDL builders\<close>

lemmas fmt_simps = sql_format_def field_def emit_def then_items_def is_digits_def

lemma format_create_table:
  "sql_format ''CREATE TABLE {table_name} ('' [(''table_name'', v)] =
     Inr (Composed [SQL ''CREATE TABLE '', v, SQL '' (''])"
  by (simp add: fmt_simps)

lemma format_default:
  "sql_format ''DEFAULT {default_value}'' [(''default_value'', v)] =
     Inr (Composed [SQL ''DEFAULT '', v])"
  by (simp add: fmt_simps)

lemma format_pk:
  "sql_format ''    CONSTRAINT {pk_name} PRIMARY KEY ({pks})''
     [(''table_name'', t), (''pk_name'', n), (''pks'', p)] =
   Inr (Composed [SQL ''    CONSTRAINT '', n, SQL '' PRIMARY KEY ('', p, SQL '')''])"
  by (simp add: fmt_simps)

lemma format_fk:
  "sql_format
     ''ALTER TABLE {table_name} ADD CONSTRAINT {key_name}  FOREIGN KEY ({column}) REFERENCES {other_table} ({other_column})''
     [(''table_name'', t), (''column'', c), (''key_name'', k), (''other_table'', ot), (''other_column'', oc)] =
   Inr (Composed [SQL ''ALTER TABLE '', t, SQL '' ADD CONSTRAINT '', k, SQL ''  FOREIGN KEY ('', c,
                  SQL '') REFERENCES '', ot, SQL '' ('', oc, SQL '')''])"
  by (simp add: fmt_simps)

lemma format_index_column:
  "sql_format ''{name} {sort_order}'' [(''name'', n), (''sort_order'', s)] =
     Inr (Composed [n, SQL '' '', s])"
  by (simp add: fmt_simps)

lemma format_index:
  "sql_format ''CREATE INDEX {index_name} ON {table_name} ({columns})''
     [(''index_name'', i), (''table_name'', t), (''columns'', c)] =
   Inr (Composed [SQL ''CREATE INDEX '', i, SQL '' ON '', t, SQL '' ('', c, SQL '')''])"
  by (simp add: fmt_simps)

lemma format_items_literal:
  "brace_free s \<Longrightarrow> format_items kw (Lit pre) s = Inr (emit (pre @ s))"
proof (induction s arbitrary: pre)
  case Nil
  then show ?case by simp
next
  case (Cons c cs)
  then have c: "c \<noteq> CHR ''{''" "c \<noteq> CHR ''}''" and cs: "brace_free cs"
    by (auto simp: brace_free_def)
  show ?case
  proof (cases cs)
    case Nil
    with c show ?thesis by simp
  next
    case (Cons d ds)
    from Cons.IH [OF cs, of "pre @ [c]"] c Cons show ?thesis by simp
  qed
qed

lemma format_column:
  assumes "brace_free ty"
  shows "sql_format (''    {name} '' @ ty) [(''name'', v)] =
     Inr (Composed [SQL ''    '', v, SQL ('' '' @ ty)])"
proof -
  from assms have "brace_free ('' '' @ ty)" by (simp add: brace_free_def)
  from format_items_literal [OF this, of "[(''name'', v)]" "[]"]
  have "format_items [(''name'', v)] (Lit []) (CHR '' '' # ty) = Inr [SQL ('' '' @ ty)]"
    by (simp add: emit_def)
  then show ?thesis by (simp add: fmt_simps)
qed

lemma map_err_Inr_iff:
  "map_err f xs = Inr ys \<longleftrightarrow> list_all2 (\<lambda>x y. f x = Inr y) xs ys"
proof (induction xs arbitrary: ys)
  case Nil
  then show ?case by (cases ys) auto
next
  case (Cons x xs)
  show ?case
  proof (cases ys)
    case Nil
    then show ?thesis by (simp split: sum.splits)
  next
    case c: (Cons y ys')
    have "list_all2 (\<lambda>x y. f x = Inr y) xs ys' = (map_err f xs = Inr ys')"
      using Cons.IH [of ys'] by simp
    with c show ?thesis by (auto split: sum.splits)
  qed
qed

lemma map_err_total:
  "\<forall>x \<in> set xs. \<exists>y. f x = Inr y \<Longrightarrow> \<exists>ys. map_err f xs = Inr ys"
  by (induction xs) auto

lemma map_err_sorted:
  "sorted (map k xs) \<Longrightarrow> map_err f (sort_key k xs) = map_err f xs"
  by (simp add: sort_key_id_if_sorted)

lemma column_sql_brace_free:
  "brace_free (remap_column_type (col_type c)) \<Longrightarrow> \<exists>x. column_sql c = Inr x"
  by (simp add: column_sql_def format_column [unfolded append_Cons append_Nil] format_default
      Let_def split: option.split)

lemma with_pk_eq:
  "with_pk t a =
     Inr (if tbl_pks t \<noteq> [] \<and> \<not> tbl_use_rowid t
          then Composed [sql_add a (SQL '',\<newline>''), SQL ''    '',
                 Composed [SQL ''    CONSTRAINT '', Identifier (''PK_'' @ concat (tbl_pks t)),
                           SQL '' PRIMARY KEY ('',
                           Composed (join_items (SQL '', '') (map Identifier (tbl_pks t))),
                           SQL '')'']]
          else a)"
  by (simp add: with_pk_def pk_sql_def format_pk sql_join_def)

lemma with_checks_eq:
  "with_checks st t a =
     (case checks_sql_by_table st (tbl_name t) of
        None \<Rightarrow> Inl (KeyError (tbl_name t))
      | Some checks \<Rightarrow>
          Inr (a, st\<lparr>summary := (summary st)(Checks := (summary st Checks)
                 (tbl_name t \<mapsto> [''status'' \<mapsto> SStr ''IGNORED'',
                                 ''count'' \<mapsto> SInt (int (length checks))]))\<rparr>))"
  by (auto simp: with_checks_def summary_new_def summary_set_def IGNORE_CHECKS_def
      split: option.split)

lemma checks_summary_prepared [simp]:
  "checks_sql_by_table (summary_prepared cat n k st) = checks_sql_by_table st"
  by (simp add: summary_prepared_def)

lemma get_table_sql_cases:
  "get_table_sql st t =
     (case map_err column_sql (tbl_columns t) of
        Inl e \<Rightarrow> Inl e
      | Inr cols \<Rightarrow>
          (case checks_sql_by_table st (tbl_name t) of
             None \<Rightarrow> Inl (KeyError (tbl_name t))
           | Some checks \<Rightarrow>
               Inr (Composed
                      [Composed [SQL ''CREATE TABLE '', Identifier (tbl_name t), SQL '' (''],
                       SQL ''\<newline>'',
                       (if tbl_pks t \<noteq> [] \<and> \<not> tbl_use_rowid t
                        then Composed
                          [Composed (join_items (SQL '',\<newline>'') cols @ [SQL '',\<newline>'']),
                           SQL ''    '',
                           Composed [SQL ''    CONSTRAINT '',
                                     Identifier (''PK_'' @ concat (tbl_pks t)),
                                     SQL '' PRIMARY KEY ('',
                                     Composed (join_items (SQL '', '') (map Identifier (tbl_pks t))),
                                     SQL '')'']]
                        else Composed (join_items (SQL '',\<newline>'') cols)),
                       SQL ''\<newline>'', SQL '');''],
                    (summary_prepared Pks (tbl_name t) (length (tbl_pks t))
                       (summary_prepared Columns (tbl_name t) (length (tbl_columns t)) st))
                    \<lparr>summary :=
                       (summary (summary_prepared Pks (tbl_name t) (length (tbl_pks t))
                          (summary_prepared Columns (tbl_name t) (length (tbl_columns t)) st)))
                       (Checks :=
                          (summary (summary_prepared Pks (tbl_name t) (length (tbl_pks t))
                             (summary_prepared Columns (tbl_name t) (length (tbl_columns t)) st))
                             Checks)
                          (tbl_name t \<mapsto> [''status'' \<mapsto> SStr ''IGNORED'',
                                          ''count'' \<mapsto> SInt (int (length checks))]))\<rparr>)))"
  by (simp add: get_table_sql_def format_create_table columns_sql_def with_pk_eq
      with_checks_eq sql_join_def Let_def split: sum.split option.split)

section \<open>Table DDL\<close>

text \<open>
  C5. \<open>get_table_sql\<close> returns a statement whenever the table name is a key of the
  checks map and no mapped column type contains a brace. Whenever it returns a
  statement, that statement has one column clause per column, the clause at position
  \<open>i\<close> being the clause of the \<open>i\<close>-th column of the catalog list, so that the clauses
  are in ascending \<open>cid\<close> order when the catalog lists the columns so; and the clause
  \<open>CONSTRAINT PK_<pk columns concatenated> PRIMARY KEY (...)\<close> is present exactly when
  the list of primary-key columns is not empty and the table is not flagged as using the
  rowid.
\<close>

theorem get_table_sql_clauses:
  "(tbl_name t \<in> dom (checks_sql_by_table st) \<and>
    (\<forall>c \<in> set (tbl_columns t). brace_free (remap_column_type (col_type c))) \<longrightarrow>
      (\<exists>ddl st'. get_table_sql st t = Inr (ddl, st'))) \<and>
   (get_table_sql st t = Inr (ddl, st') \<longrightarrow>
      (\<exists>cols. length cols = length (tbl_columns t) \<and>
         (\<forall>i < length cols. column_sql (tbl_columns t ! i) = Inr (cols ! i)) \<and>
         (sorted (map col_cid (tbl_columns t)) \<longrightarrow>
            map_err column_sql (sort_key col_cid (tbl_columns t)) = Inr cols) \<and>
         ddl = Composed
           [Composed [SQL ''CREATE TABLE '', Identifier (tbl_name t), SQL '' (''],
            SQL ''\<newline>'',
            (if tbl_pks t \<noteq> [] \<and> \<not> tbl_use_rowid t
             then Composed
               [Composed (join_items (SQL '',\<newline>'') cols @ [SQL '',\<newline>'']),
                SQL ''    '',
                Composed [SQL ''    CONSTRAINT '',
                          Identifier (''PK_'' @ concat (tbl_pks t)),
                          SQL '' PRIMARY KEY ('',
                          Composed (join_items (SQL '', '') (map Identifier (tbl_pks t))),
                          SQL '')'']]
             else Composed (join_items (SQL '',\<newline>'') cols)),
            SQL ''\<newline>'', SQL '');'']))"
proof (intro conjI impI)
  assume a: "tbl_name t \<in> dom (checks_sql_by_table st) \<and>
    (\<forall>c \<in> set (tbl_columns t). brace_free (remap_column_type (col_type c)))"
  then have "\<forall>c \<in> set (tbl_columns t). \<exists>x. column_sql c = Inr x"
    using column_sql_brace_free by blast
  then obtain cols where cols: "map_err column_sql (tbl_columns t) = Inr cols"
    using map_err_total by blast
  from a obtain checks where "checks_sql_by_table st (tbl_name t) = Some checks" by auto
  with cols show "\<exists>ddl st'. get_table_sql st t = Inr (ddl, st')"
    by (simp add: get_table_sql_cases)
next
  assume r: "get_table_sql st t = Inr (ddl, st')"
  then obtain cols where cols: "map_err column_sql (tbl_columns t) = Inr cols"
    by (cases "map_err column_sql (tbl_columns t)") (simp_all add: get_table_sql_cases)
  with r obtain checks where checks: "checks_sql_by_table st (tbl_name t) = Some checks"
    by (cases "checks_sql_by_table st (tbl_name t)") (simp_all add: get_table_sql_cases)
  from cols have la: "list_all2 (\<lambda>c x. column_sql c = Inr x) (tbl_columns t) cols"
    by (simp add: map_err_Inr_iff)
  then have len: "length cols = length (tbl_columns t)"
    by (simp add: list_all2_lengthD)
  have nth: "\<forall>i < length cols. column_sql (tbl_columns t ! i) = Inr (cols ! i)"
    using la by (auto simp: list_all2_conv_all_nth)
  have srt: "sorted (map col_cid (tbl_columns t)) \<longrightarrow>
      map_err column_sql (sort_key col_cid (tbl_columns t)) = Inr cols"
    using cols by (simp add: map_err_sorted)
  have ddl: "ddl = Composed
           [Composed [SQL ''CREATE TABLE '', Identifier (tbl_name t), SQL '' (''],
            SQL ''\<newline>'',
            (if tbl_pks t \<noteq> [] \<and> \<not> tbl_use_rowid t
             then Composed
               [Composed (join_items (SQL '',\<newline>'') cols @ [SQL '',\<newline>'']),
                SQL ''    '',
                Composed [SQL ''    CONSTRAINT '',
                          Identifier (''PK_'' @ concat (tbl_pks t)),
                          SQL '' PRIMARY KEY ('',
                          Composed (join_items (SQL '', '') (map Identifier (tbl_pks t))),
                          SQL '')'']]
             else Composed (join_items (SQL '',\<newline>'') cols)),
            SQL ''\<newline>'', SQL '');'']"
    using r cols checks by (simp add: get_table_sql_cases)
  from len nth srt ddl show "\<exists>cols. length cols = length (tbl_columns t) \<and>
         (\<forall>i < length cols. column_sql (tbl_columns t ! i) = Inr (cols ! i)) \<and>
         (sorted (map col_cid (tbl_columns t)) \<longrightarrow>
            map_err column_sql (sort_key col_cid (tbl_columns t)) = Inr cols) \<and>
         ddl = Composed
           [Composed [SQL ''CREATE TABLE '', Identifier (tbl_name t), SQL '' (''],
            SQL ''\<newline>'',
            (if tbl_pks t \<noteq> [] \<and> \<not> tbl_use_rowid t
             then Composed
               [Composed (join_items (SQL '',\<newline>'') cols @ [SQL '',\<newline>'']),
                SQL ''    '',
                Composed [SQL ''    CONSTRAINT '',
                          Identifier (''PK_'' @ concat (tbl_pks t)),
                          SQL '' PRIMARY KEY ('',
                          Composed (join_items (SQL '', '') (map Identifier (tbl_pks t))),
                          SQL '')'']]
             else Composed (join_items (SQL '',\<newline>'') cols)),
            SQL ''\<newline>'', SQL '');'']"
    by blast
qed

theorem get_table_sql_clauses_witness:
  "\<exists>st'. get_table_sql (init\<lparr>checks_sql_by_table := [''Users'' \<mapsto> []]\<rparr>) example_users =
     Inr (Composed
            [Composed [SQL ''CREATE TABLE '', Identifier ''Users'', SQL '' (''],
             SQL ''\<newline>'',
             Composed
               [Composed
                  [Composed [SQL ''    '', Identifier ''id'', SQL '' INTEGER''],
                   SQL '',\<newline>'',
                   Composed [Composed [SQL ''    '', Identifier ''active'', SQL '' BOOLEAN''],
                             SQL '' '', SQL ''NOT NULL''],
                   SQL '',\<newline>'',
                   Composed [SQL ''    '', Identifier ''nickname'', SQL '' VARCHAR(20)''],
                   SQL '',\<newline>''],
                SQL ''    '',
                Composed [SQL ''    CONSTRAINT '', Identifier ''PK_id'', SQL '' PRIMARY KEY ('',
                          Composed [Identifier ''id''], SQL '')'']],
             SQL ''\<newline>'', SQL '');''], st')"
proof -
  let ?st = "init\<lparr>checks_sql_by_table := [''Users'' \<mapsto> []]\<rparr>"
  have "tbl_name example_users \<in> dom (checks_sql_by_table ?st) \<and>
    (\<forall>c \<in> set (tbl_columns example_users). brace_free (remap_column_type (col_type c)))"
    by (simp add: example_users_def init_def remap_column_type_def str_replace.simps
        brace_free_def)
  with get_table_sql_clauses [of example_users ?st]
  obtain ddl st' where r: "get_table_sql ?st example_users = Inr (ddl, st')" by blast
  with get_table_sql_clauses [of example_users ?st ddl st']
  obtain cols where len: "length cols = length (tbl_columns example_users)"
    and nth: "\<forall>i < length cols. column_sql (tbl_columns example_users ! i) = Inr (cols ! i)"
    and ddl: "ddl = Composed
           [Composed [SQL ''CREATE TABLE '', Identifier (tbl_name example_users), SQL '' (''],
            SQL ''\<newline>'',
            (if tbl_pks example_users \<noteq> [] \<and> \<not> tbl_use_rowid example_users
             then Composed
               [Composed (join_items (SQL '',\<newline>'') cols @ [SQL '',\<newline>'']),
                SQL ''    '',
                Composed [SQL ''    CONSTRAINT '',
                          Identifier (''PK_'' @ concat (tbl_pks example_users)),
                          SQL '' PRIMARY KEY ('',
                          Composed (join_items (SQL '', '') (map Identifier (tbl_pks example_users))),
                          SQL '')'']]
             else Composed (join_items (SQL '',\<newline>'') cols)),
            SQL ''\<newline>'', SQL '');'']"
    by blast
  from len obtain a b c where cols: "cols = [a, b, c]"
    by (cases cols; simp add: example_users_def)
       (metis (no_types) length_0_conv length_Suc_conv)
  from nth [rule_format, of 0] nth [rule_format, of 1] nth [rule_format, of 2] cols
  have "a = Composed [SQL ''    '', Identifier ''id'', SQL '' INTEGER'']"
    and "b = Composed [Composed [SQL ''    '', Identifier ''active'', SQL '' BOOLEAN''],
                       SQL '' '', SQL ''NOT NULL'']"
    and "c = Composed [SQL ''    '', Identifier ''nickname'', SQL '' VARCHAR(20)'']"
    by (simp_all add: example_users_def column_sql_def remap_column_type_def
        str_replace.simps fmt_simps sql_join_def)
  with cols ddl r show ?thesis by (simp add: example_users_def)
qed

text \<open>
  C10, as the code has it. With a table name that is not a key of
  \<open>checks_sql_by_table\<close>, \<open>get_table_sql\<close> never returns a statement: it raises
  \<open>KeyError\<close> for the table name whenever no mapped column type contains a brace
  (otherwise building a column clause may raise before the lookup is reached). The
  constant that disables check emission is \<open>True\<close>.
\<close>

theorem get_table_sql_needs_checks:
  "tbl_name t \<notin> dom (checks_sql_by_table st) \<Longrightarrow>
     (\<exists>e. get_table_sql st t = Inl e) \<and>
     ((\<forall>c \<in> set (tbl_columns t). brace_free (remap_column_type (col_type c))) \<longrightarrow>
        get_table_sql st t = Inl (KeyError (tbl_name t))) \<and>
     IGNORE_CHECKS"
proof -
  assume a: "tbl_name t \<notin> dom (checks_sql_by_table st)"
  then have n: "checks_sql_by_table st (tbl_name t) = None" by auto
  have 1: "\<exists>e. get_table_sql st t = Inl e"
    using n by (cases "map_err column_sql (tbl_columns t)") (simp_all add: get_table_sql_cases)
  have 2: "get_table_sql st t = Inl (KeyError (tbl_name t))"
    if "\<forall>c \<in> set (tbl_columns t). brace_free (remap_column_type (col_type c))"
  proof -
    from that have "\<forall>c \<in> set (tbl_columns t). \<exists>x. column_sql c = Inr x"
      using column_sql_brace_free by blast
    then obtain cols where "map_err column_sql (tbl_columns t) = Inr cols"
      using map_err_total by blast
    with n show ?thesis by (simp add: get_table_sql_cases)
  qed
  from 1 2 show ?thesis by (simp add: IGNORE_CHECKS_def)
qed

theorem get_table_sql_needs_checks_witness:
  "get_table_sql init example_users = Inl (KeyError ''Users'')"
proof -
  have a: "tbl_name example_users \<notin> dom (checks_sql_by_table init)"
    by (simp add: init_def)
  have b: "\<forall>c \<in> set (tbl_columns example_users). brace_free (remap_column_type (col_type c))"
    by (simp add: example_users_def remap_column_type_def str_replace.simps brace_free_def)
  from get_table_sql_needs_checks [OF a] b show ?thesis
    by (simp add: example_users_def)
qed

text \<open>
  C10 as stated fails on a table with the column type \<open>{\<close>: on a fresh object the
  column loop raises \<open>ValueError\<close>, which is not a lookup error, before the checks map is
  read.
\<close>

theorem get_table_sql_brace_counterexample:
  "tbl_name \<lparr>tbl_name = ''t'',
      tbl_columns = [\<lparr>col_cid = 0, col_name = ''a'', col_type = ''{'', col_notnull = False,
                      col_default_value = None\<rparr>],
      tbl_pks = [''rowid''], tbl_use_rowid = True, tbl_foreign_keys = [], tbl_xindexes = []\<rparr>
     \<notin> dom (checks_sql_by_table init) \<and>
   get_table_sql init
     \<lparr>tbl_name = ''t'',
      tbl_columns = [\<lparr>col_cid = 0, col_name = ''a'', col_type = ''{'', col_notnull = False,
                      col_default_value = None\<rparr>],
      tbl_pks = [''rowid''], tbl_use_rowid = True, tbl_foreign_keys = [], tbl_xindexes = []\<rparr>
     = Inl ValueError"
  by (simp add: init_def get_table_sql_cases column_sql_def remap_column_type_def fmt_simps)

section \<open>Index DDL\<close>

lemma index_columns_sql_unnamed:
  "\<forall>col \<in> set cols. unnamed col \<Longrightarrow> index_columns_sql cols = Inr []"
  by (induction cols) (auto simp: unnamed_def)

lemma index_columns_sql_total: "\<exists>xs. index_columns_sql cols = Inr xs"
proof (induction cols)
  case Nil
  then show ?case by simp
next
  case (Cons col cols)
  then obtain xs where "index_columns_sql cols = Inr xs" by blast
  then show ?case by (simp add: format_index_column split: option.split)
qed

lemma index_sql_total: "\<exists>x. index_sql t index = Inr x"
proof -
  obtain xs where "index_columns_sql (xi_columns index) = Inr xs"
    using index_columns_sql_total by blast
  then show ?thesis by (simp add: index_sql_def format_index)
qed

text \<open>
  C6, as the code has it. For an index of the table whose column entries all lack a
  resolvable name, \<open>get_index_sql\<close> raises nothing: it returns one statement per index,
  and the statement of that index is \<open>CREATE INDEX <index> ON <table> ()\<close>, with an
  empty column list.
\<close>

theorem get_index_sql_empty_columns:
  "index \<in> set (tbl_xindexes t) \<and> (\<forall>col \<in> set (xi_columns index). unnamed col) \<longrightarrow>
     (\<exists>sqls st'. get_index_sql st t = Inr (sqls, st') \<and>
        length sqls = length (tbl_xindexes t) \<and>
        Composed [SQL ''CREATE INDEX '', Identifier (xi_name index), SQL '' ON '',
                  Identifier (tbl_name t), SQL '' ('', Composed [], SQL '')''] \<in> set sqls)"
proof
  assume a: "index \<in> set (tbl_xindexes t) \<and> (\<forall>col \<in> set (xi_columns index). unnamed col)"
  let ?stmt = "Composed [SQL ''CREATE INDEX '', Identifier (xi_name index), SQL '' ON '',
                  Identifier (tbl_name t), SQL '' ('', Composed [], SQL '')'']"
  from a have one: "index_sql t index = Inr ?stmt"
    by (simp add: index_sql_def index_columns_sql_unnamed format_index sql_join_def)
  have "\<forall>i \<in> set (tbl_xindexes t). \<exists>x. index_sql t i = Inr x"
    using index_sql_total by blast
  then obtain sqls where sqls: "map_err (index_sql t) (tbl_xindexes t) = Inr sqls"
    using map_err_total by blast
  then have la: "list_all2 (\<lambda>i x. index_sql t i = Inr x) (tbl_xindexes t) sqls"
    by (simp add: map_err_Inr_iff)
  then have len: "length sqls = length (tbl_xindexes t)"
    by (simp add: list_all2_lengthD)
  from a obtain k where k: "k < length (tbl_xindexes t)" "tbl_xindexes t ! k = index"
    by (auto simp: in_set_conv_nth)
  with la have "index_sql t index = Inr (sqls ! k)"
    by (auto simp: list_all2_conv_all_nth)
  with one k len have "?stmt \<in> set sqls" by (auto simp: in_set_conv_nth)
  with sqls len show "\<exists>sqls st'. get_index_sql st t = Inr (sqls, st') \<and>
        length sqls = length (tbl_xindexes t) \<and> ?stmt \<in> set sqls"
    by (simp add: get_index_sql_def)
qed

theorem get_index_sql_empty_columns_witness:
  "\<exists>st'. get_index_sql init
        \<lparr>tbl_name = ''t'', tbl_columns = [], tbl_pks = [''rowid''], tbl_use_rowid = True,
         tbl_foreign_keys = [],
         tbl_xindexes = [\<lparr>xi_name = ''ix'', xi_columns = [\<lparr>xic_name = None, xic_desc = False\<rparr>]\<rparr>]\<rparr>
   = Inr ([Composed [SQL ''CREATE INDEX '', Identifier ''ix'', SQL '' ON '', Identifier ''t'',
                    SQL '' ('', Composed [], SQL '')'']], st')"
  using get_index_sql_empty_columns [of "\<lparr>xi_name = ''ix'', xi_columns = [\<lparr>xic_name = None, xic_desc = False\<rparr>]\<rparr>"
     "\<lparr>tbl_name = ''t'', tbl_columns = [], tbl_pks = [''rowid''], tbl_use_rowid = True,
         tbl_foreign_keys = [],
         tbl_xindexes = [\<lparr>xi_name = ''ix'', xi_columns = [\<lparr>xic_name = None, xic_desc = False\<rparr>]\<rparr>]\<rparr>" init]
  by (auto simp: unnamed_def length_Suc_conv)

text \<open>
  C6 as stated fails: for a table with one index whose only column entry has no name,
  the result is a statement, not an error.
\<close>

theorem get_index_sql_no_error_counterexample:
  "map_sum id fst
     (get_index_sql init
        \<lparr>tbl_name = ''t'', tbl_columns = [], tbl_pks = [''rowid''], tbl_use_rowid = True,
         tbl_foreign_keys = [],
         tbl_xindexes = [\<lparr>xi_name = ''ix'', xi_columns = [\<lparr>xic_name = None, xic_desc = False\<rparr>]\<rparr>]\<rparr>)
   = Inr [Composed [SQL ''CREATE INDEX '', Identifier ''ix'', SQL '' ON '', Identifier ''t'',
                    SQL '' ('', Composed [], SQL '')'']]"
  by (simp add: get_index_sql_def index_sql_def format_index sql_join_def)

section \<open>Check extraction\<close>

lemma str_replace_char:
  "str_replace [c] [d] s = map (\<lambda>x. if x = c then d else x) s"
proof (induction s)
  case Nil
  then show ?case by (simp add: str_replace.simps)
next
  case (Cons x xs)
  then show ?case by (subst str_replace.simps) auto
qed

lemma normalised_quotes:
  "c \<in> {CHR ''['', CHR '']'', CHR 0x60} \<Longrightarrow>
   c \<notin> set (str_replace [CHR 0x60] [CHR 0x22]
             (str_replace '']'' [CHR 0x22] (str_replace ''['' [CHR 0x22] s)))"
  by (auto simp: str_replace_char)

lemma scan_lines_eq:
  "\<forall>line \<in> set ls. str_contains ''CHECK'' line \<longrightarrow>
       str_contains ''('' line \<and> str_contains '')'' line \<Longrightarrow>
   scan_lines ls checks transpile =
     Inr (checks @ map check_clause (filter (str_contains ''CHECK'') ls),
          transpile @ concat (map (\<lambda>l. ''\<newline>'' @ l) (filter (\<lambda>l. \<not> str_contains ''CHECK'' l) ls)))"
proof (induction ls arbitrary: checks transpile)
  case Nil
  then show ?case by simp
next
  case (Cons line ls)
  then have ih: "scan_lines ls c tr =
     Inr (c @ map check_clause (filter (str_contains ''CHECK'') ls),
          tr @ concat (map (\<lambda>l. ''\<newline>'' @ l) (filter (\<lambda>l. \<not> str_contains ''CHECK'' l) ls)))"
    for c tr by simp
  show ?case
  proof (cases "str_contains ''CHECK'' line")
    case True
    with Cons.prems have "str_contains ''('' line" "str_contains '')'' line" by simp_all
    with True show ?thesis by (simp add: ih check_clause_def)
  next
    case False
    then show ?thesis by (simp add: ih)
  qed
qed

lemma scan_definition_eq:
  assumes "\<forall>line \<in> set (check_lines defn). str_contains ''('' line \<and> str_contains '')'' line"
  shows "scan_definition defn =
     Inr (map check_clause (check_lines defn),
          str_replace [CHR 0x60] [CHR 0x22]
            (str_replace '']'' [CHR 0x22]
               (str_replace ''['' [CHR 0x22]
                  (concat (map (\<lambda>l. ''\<newline>'' @ l)
                     (filter (\<lambda>l. \<not> str_contains ''CHECK'' l) (str_split CHR ''\<newline>'' defn)))))))"
proof -
  from assms have "\<forall>line \<in> set (str_split CHR ''\<newline>'' defn). str_contains ''CHECK'' line \<longrightarrow>
       str_contains ''('' line \<and> str_contains '')'' line"
    by (simp add: check_lines_def)
  from scan_lines_eq [OF this, of "[]" "[]"] show ?thesis
    by (simp add: scan_definition_def check_lines_def)
qed

lemma collect_checks_eq:
  "\<forall>(n, text) \<in> set rows. \<forall>line \<in> set (check_lines text).
       str_contains ''('' line \<and> str_contains '')'' line \<Longrightarrow>
   collect_checks rows checks =
     Inr (checks ++ map_of (rev (map (\<lambda>(n, text). (n, map check_clause (check_lines text))) rows)))"
proof (induction rows arbitrary: checks)
  case Nil
  then show ?case by simp
next
  case (Cons row rows)
  obtain n defn where row: "row = (n, defn)" by (cases row)
  with Cons.prems have "\<forall>line \<in> set (check_lines defn). str_contains ''('' line \<and> str_contains '')'' line"
    by simp
  from scan_definition_eq [OF this] obtain tr where
    sd: "scan_definition defn = Inr (map check_clause (check_lines defn), tr)" by blast
  from Cons.prems have "\<forall>(n, text) \<in> set rows. \<forall>line \<in> set (check_lines text).
       str_contains ''('' line \<and> str_contains '')'' line" by simp
  from Cons.IH [OF this] row sd show ?case
    by (simp add: map_add_def fun_eq_iff split: option.split)
qed

text \<open>Trimming, stated without the functions that compute it.\<close>

lemma str_rstrip_decomp:
  "\<exists>q. s = str_rstrip p s @ q \<and> list_all p q \<and>
       (str_rstrip p s = [] \<or> \<not> p (last (str_rstrip p s)))"
proof -
  let ?q = "rev (takeWhile p (rev s))"
  have "s = rev (takeWhile p (rev s) @ dropWhile p (rev s))"
    by (simp only: takeWhile_dropWhile_id rev_rev_ident)
  also have "\<dots> = rev (dropWhile p (rev s)) @ rev (takeWhile p (rev s))"
    by (rule rev_append)
  finally have 1: "s = str_rstrip p s @ ?q" by (simp only: str_rstrip_def)
  have 2: "list_all p ?q"
    by (simp add: list_all_iff) (meson set_takeWhileD)
  have 3: "str_rstrip p s = [] \<or> \<not> p (last (str_rstrip p s))"
  proof (cases "dropWhile p (rev s) = []")
    case True
    then have "str_rstrip p s = []" by (simp only: str_rstrip_def rev.simps)
    then show ?thesis by blast
  next
    case False
    then have "\<not> p (hd (dropWhile p (rev s)))" by (rule hd_dropWhile)
    then show ?thesis by (simp only: str_rstrip_def last_rev) simp
  qed
  from 1 2 3 show ?thesis by blast
qed

lemma str_strip_decomp:
  "\<exists>pre post. s = pre @ str_strip s @ post \<and> list_all is_space pre \<and> list_all is_space post \<and>
     (str_strip s = [] \<or> (\<not> is_space (hd (str_strip s)) \<and> \<not> is_space (last (str_strip s))))"
proof -
  let ?pre = "takeWhile is_space s" and ?d = "dropWhile is_space s"
  from str_rstrip_decomp [of ?d is_space] obtain post where
    d: "?d = str_strip s @ post" and post: "list_all is_space post" and
    l: "str_strip s = [] \<or> \<not> is_space (last (str_strip s))"
    by (auto simp: str_strip_def)
  have s: "s = ?pre @ str_strip s @ post" using d by (metis takeWhile_dropWhile_id)
  have pre: "list_all is_space ?pre"
    by (simp add: list_all_iff) (meson set_takeWhileD)
  have h: "str_strip s = [] \<or> \<not> is_space (hd (str_strip s))"
  proof (cases "str_strip s")
    case Nil
    then show ?thesis by simp
  next
    case (Cons x xs)
    with d have "?d \<noteq> []" and "hd ?d = x" by auto
    then have "\<not> is_space x" using hd_dropWhile [of is_space s] by auto
    with Cons show ?thesis by simp
  qed
  from s pre post h l show ?thesis by blast
qed

lemma str_rstrip_unique:
  "body = [] \<or> \<not> p (last body) \<Longrightarrow> list_all p q \<Longrightarrow> str_rstrip p (body @ q) = body"
proof -
  assume b: "body = [] \<or> \<not> p (last body)" and q: "list_all p q"
  from q have "dropWhile p (rev q @ rev body) = dropWhile p (rev body)"
    by (intro dropWhile_append2) (simp add: list_all_iff)
  moreover from b have "dropWhile p (rev body) = rev body"
    by (cases body rule: rev_cases) auto
  ultimately show ?thesis by (simp add: str_rstrip_def)
qed

lemma str_strip_unique:
  assumes "s = pre @ b @ post" and "list_all is_space pre" and "list_all is_space post"
    and "b = [] \<or> (\<not> is_space (hd b) \<and> \<not> is_space (last b))"
  shows "str_strip s = b"
proof (cases b)
  case Nil
  with assms have "list_all is_space s" by simp
  then have d: "dropWhile is_space s = []"
    by (simp add: list_all_iff)
  show ?thesis unfolding str_strip_def str_rstrip_def d using Nil by simp
next
  case (Cons x xs)
  with assms(4) have x: "\<not> is_space x" and l: "\<not> is_space (last b)" by simp_all
  from assms(2) have "dropWhile is_space (pre @ b @ post) = dropWhile is_space (b @ post)"
    by (intro dropWhile_append2) (simp add: list_all_iff)
  with x Cons assms(1) have "dropWhile is_space s = b @ post" by simp
  moreover from l Cons have "str_rstrip is_space (b @ post) = b"
    using str_rstrip_unique [of b is_space post] assms(3) by simp
  ultimately show ?thesis by (simp add: str_strip_def)
qed

lemma all_commas: "list_all (\<lambda>c. c = a) q \<Longrightarrow> q = replicate (length q) a"
  by (induction q) auto

lemma check_clause_exists:
  "\<exists>pre body n post.
     line = pre @ body @ replicate n CHR '','' @ post \<and>
     list_all is_space pre \<and> list_all is_space post \<and>
     (body @ replicate n CHR '','' = [] \<or>
        (\<not> is_space (hd (body @ replicate n CHR '','')) \<and>
         \<not> is_space (last (body @ replicate n CHR '','')))) \<and>
     (body = [] \<or> last body \<noteq> CHR '','') \<and>
     check_clause line = SQL (''    '' @ body)"
proof -
  from str_strip_decomp [of line] obtain pre post where
    1: "line = pre @ str_strip line @ post" and 2: "list_all is_space pre"
    and 3: "list_all is_space post"
    and 4: "str_strip line = [] \<or>
       (\<not> is_space (hd (str_strip line)) \<and> \<not> is_space (last (str_strip line)))"
    by blast
  let ?body = "str_rstrip (\<lambda>c. c = CHR '','') (str_strip line)"
  from str_rstrip_decomp [of "str_strip line" "\<lambda>c. c = CHR '',''"] obtain q where
    5: "str_strip line = ?body @ q" and 6: "list_all (\<lambda>c. c = CHR '','') q"
    and 7: "?body = [] \<or> last ?body \<noteq> CHR '',''"
    by blast
  from 6 have q: "q = replicate (length q) CHR '',''" by (rule all_commas)
  from 5 q have 8: "str_strip line = ?body @ replicate (length q) CHR '',''" by simp
  from 1 8 have "line = pre @ ?body @ replicate (length q) CHR '','' @ post"
    by (metis append_assoc)
  moreover from 4 8 have "?body @ replicate (length q) CHR '','' = [] \<or>
        (\<not> is_space (hd (?body @ replicate (length q) CHR '','')) \<and>
         \<not> is_space (last (?body @ replicate (length q) CHR '','')))" by simp
  moreover have "check_clause line = SQL (''    '' @ ?body)" by (simp add: check_clause_def)
  ultimately show ?thesis using 2 3 7 by blast
qed

lemma check_clause_unique:
  assumes "line = pre @ body @ replicate n CHR '','' @ post"
    and "list_all is_space pre" and "list_all is_space post"
    and "body @ replicate n CHR '','' = [] \<or>
        (\<not> is_space (hd (body @ replicate n CHR '','')) \<and>
         \<not> is_space (last (body @ replicate n CHR '','')))"
    and "body = [] \<or> last body \<noteq> CHR '',''"
  shows "check_clause line = SQL (''    '' @ body)"
proof -
  from assms(1) have "line = pre @ (body @ replicate n CHR '','') @ post" by simp
  from str_strip_unique [OF this assms(2,3,4)]
  have "str_strip line = body @ replicate n CHR '',''" .
  moreover have "str_rstrip (\<lambda>c. c = CHR '','') (body @ replicate n CHR '','') = body"
    using assms(5) by (intro str_rstrip_unique) (auto simp: list_all_iff)
  ultimately show ?thesis by (simp add: check_clause_def)
qed

text \<open>
  C7, as the code has it. When every line that contains "CHECK" also contains "(" and
  ")", the check extractor returns, for each table of \<open>sqlite_master\<close>, the lines of
  its definition that contain "CHECK", in order, each as one clause. The clause of a
  line is four spaces followed by the body of the line, where the line is whitespace,
  the body, a run of commas and whitespace again, the body with its commas neither
  starting nor ending in whitespace and the body not ending in a comma: every line
  splits in this way, and whichever way it does, the clause is four spaces and that
  body, otherwise verbatim. The rewriting of bracket and backtick quotes into double
  quotes is applied to the accumulated other lines only, which are not part of the
  result.
\<close>

theorem check_extraction_verbatim:
  "((\<forall>(n, text) \<in> set master. \<forall>line \<in> set (check_lines text).
        str_contains ''('' line \<and> str_contains '')'' line) \<longrightarrow>
      get_check_constraints master =
        Inr (map_of (rev (map (\<lambda>(n, text). (n, map check_clause (check_lines text))) master)))) \<and>
   (\<exists>p b m q.
      line = p @ b @ replicate m CHR '','' @ q \<and>
      list_all is_space p \<and> list_all is_space q \<and>
      (b @ replicate m CHR '','' = [] \<or>
         (\<not> is_space (hd (b @ replicate m CHR '','')) \<and>
          \<not> is_space (last (b @ replicate m CHR '','')))) \<and>
      (b = [] \<or> last b \<noteq> CHR '','') \<and>
      check_clause line = SQL (''    '' @ b)) \<and>
   (line = pre @ body @ replicate n CHR '','' @ post \<and>
    list_all is_space pre \<and> list_all is_space post \<and>
    (body @ replicate n CHR '','' = [] \<or>
       (\<not> is_space (hd (body @ replicate n CHR '','')) \<and>
        \<not> is_space (last (body @ replicate n CHR '','')))) \<and>
    (body = [] \<or> last body \<noteq> CHR '','') \<longrightarrow>
      check_clause line = SQL (''    '' @ body)) \<and>
   ((\<forall>line \<in> set (check_lines defn). str_contains ''('' line \<and> str_contains '')'' line) \<longrightarrow>
      (\<exists>transpile. scan_definition defn = Inr (map check_clause (check_lines defn), transpile) \<and>
         CHR ''['' \<notin> set transpile \<and> CHR '']'' \<notin> set transpile \<and> CHR 0x60 \<notin> set transpile))"
proof (intro conjI impI)
  assume "\<forall>(n, text) \<in> set master. \<forall>line \<in> set (check_lines text).
        str_contains ''('' line \<and> str_contains '')'' line"
  from collect_checks_eq [OF this, of Map.empty]
  show "get_check_constraints master =
        Inr (map_of (rev (map (\<lambda>(n, text). (n, map check_clause (check_lines text))) master)))"
    by (simp add: get_check_constraints_def)
next
  show "\<exists>p b m q.
      line = p @ b @ replicate m CHR '','' @ q \<and>
      list_all is_space p \<and> list_all is_space q \<and>
      (b @ replicate m CHR '','' = [] \<or>
         (\<not> is_space (hd (b @ replicate m CHR '','')) \<and>
          \<not> is_space (last (b @ replicate m CHR '','')))) \<and>
      (b = [] \<or> last b \<noteq> CHR '','') \<and>
      check_clause line = SQL (''    '' @ b)"
    by (rule check_clause_exists)
next
  assume "line = pre @ body @ replicate n CHR '','' @ post \<and>
    list_all is_space pre \<and> list_all is_space post \<and>
    (body @ replicate n CHR '','' = [] \<or>
       (\<not> is_space (hd (body @ replicate n CHR '','')) \<and>
        \<not> is_space (last (body @ replicate n CHR '','')))) \<and>
    (body = [] \<or> last body \<noteq> CHR '','')"
  then show "check_clause line = SQL (''    '' @ body)"
    using check_clause_unique [of line pre body n post] by blast
next
  assume "\<forall>line \<in> set (check_lines defn). str_contains ''('' line \<and> str_contains '')'' line"
  from scan_definition_eq [OF this] normalised_quotes
  show "\<exists>transpile. scan_definition defn = Inr (map check_clause (check_lines defn), transpile) \<and>
         CHR ''['' \<notin> set transpile \<and> CHR '']'' \<notin> set transpile \<and> CHR 0x60 \<notin> set transpile"
    by simp
qed

theorem check_extraction_verbatim_witness:
  "(case get_check_constraints
           [(''t'', ''CREATE TABLE t (\<newline>  a INTEGER CHECK (a > 0), \<newline>  [b] TEXT\<newline>)'')] of
      Inl e \<Rightarrow> None
    | Inr m \<Rightarrow> m ''t'') = Some [SQL ''    a INTEGER CHECK (a > 0)''] \<and>
   (\<exists>transpile.
      scan_definition ''CREATE TABLE t (\<newline>  a INTEGER CHECK (a > 0), \<newline>  [b] TEXT\<newline>)'' =
        Inr ([SQL ''    a INTEGER CHECK (a > 0)''], transpile) \<and>
      CHR ''['' \<notin> set transpile)"
proof -
  let ?d = "''CREATE TABLE t (\<newline>  a INTEGER CHECK (a > 0), \<newline>  [b] TEXT\<newline>)''"
  let ?l = "''  a INTEGER CHECK (a > 0), ''"
  have cl: "check_lines ?d = [?l]"
    by (simp add: check_lines_def)
  have "?l = ''  '' @ ''a INTEGER CHECK (a > 0)'' @ replicate 1 CHR '','' @ '' '' \<and>
    list_all is_space ''  '' \<and> list_all is_space '' '' \<and>
    (''a INTEGER CHECK (a > 0)'' @ replicate 1 CHR '','' = [] \<or>
       (\<not> is_space (hd (''a INTEGER CHECK (a > 0)'' @ replicate 1 CHR '','')) \<and>
        \<not> is_space (last (''a INTEGER CHECK (a > 0)'' @ replicate 1 CHR '','')))) \<and>
    (''a INTEGER CHECK (a > 0)'' = [] \<or> last ''a INTEGER CHECK (a > 0)'' \<noteq> CHR '','')"
    by (simp add: is_space_def)
  with check_extraction_verbatim
    [of "[(''t'', ?d)]" ?l "''  ''" "''a INTEGER CHECK (a > 0)''" 1 "'' ''" ?d]
  have cc: "check_clause ?l = SQL (''    '' @ ''a INTEGER CHECK (a > 0)'')"
    by blast
  have h: "\<forall>line \<in> set (check_lines ?d). str_contains ''('' line \<and> str_contains '')'' line"
    by (simp add: cl)
  then have hm: "\<forall>(n, text) \<in> set [(''t'', ?d)]. \<forall>line \<in> set (check_lines text).
      str_contains ''('' line \<and> str_contains '')'' line"
    by simp
  from check_extraction_verbatim
    [of "[(''t'', ?d)]" ?l "''  ''" "''a INTEGER CHECK (a > 0)''" 1 "'' ''" ?d] h hm
  have a: "get_check_constraints [(''t'', ?d)] =
      Inr (map_of (rev (map (\<lambda>(n, text). (n, map check_clause (check_lines text))) [(''t'', ?d)])))"
    and b: "\<exists>transpile. scan_definition ?d = Inr (map check_clause (check_lines ?d), transpile) \<and>
         CHR ''['' \<notin> set transpile \<and> CHR '']'' \<notin> set transpile \<and> CHR 0x60 \<notin> set transpile"
    by blast+
  from a have "(case get_check_constraints [(''t'', ?d)] of Inl e \<Rightarrow> None | Inr m \<Rightarrow> m ''t'') =
      Some [SQL ''    a INTEGER CHECK (a > 0)'']"
    by (simp add: cl cc)
  moreover from b have "\<exists>transpile. scan_definition ?d =
        Inr ([SQL ''    a INTEGER CHECK (a > 0)''], transpile) \<and> CHR ''['' \<notin> set transpile"
    unfolding cl list.map cc by (simp only: append.simps) blast
  ultimately show ?thesis by blast
qed

text \<open>
  C7 as stated fails: a bracket-quoted identifier on a CHECK line is still
  bracket-quoted in the extracted clause.
\<close>

theorem get_check_constraints_brackets_counterexample:
  "(case get_check_constraints
           [(''t'', ''CREATE TABLE t (\<newline>  [a] INTEGER CHECK ([a] > 0),\<newline>  b TEXT\<newline>)'')] of
      Inl e \<Rightarrow> None
    | Inr m \<Rightarrow> m ''t'') = Some [SQL ''    [a] INTEGER CHECK ([a] > 0)'']"
  by (simp add: get_check_constraints_def scan_definition_def str_strip_def str_rstrip_def is_space_def)

text \<open>
  A line that contains "CHECK" and no parenthesis makes the extractor raise: the results
  of \<open>index\<close> and \<open>rindex\<close> are not used, but the calls are made.
\<close>

lemma get_check_constraints_raises_example:
  "get_check_constraints [(''t'', ''CREATE TABLE t (\<newline>  a INTEGER -- CHECK later\<newline>)'')] = Inl ValueError"
  by (simp add: get_check_constraints_def scan_definition_def)

text \<open>Trimming removes a no-break space as well, as \<open>line.strip()\<close> does.\<close>

lemma check_clause_no_break_space_example:
  "check_clause (''  CHECK (a > 0),'' @ [CHR 0xA0]) = SQL ''    CHECK (a > 0)''"
  by (simp add: check_clause_def str_strip_def str_rstrip_def is_space_def)

section \<open>Schema build and data load\<close>

lemma get_table_sql_created:
  "get_table_sql st t = Inr (ddl, st1) \<Longrightarrow>
     created_table ddl = Some (tbl_name t) \<and> tables_sql st1 = tables_sql st"
  by (auto simp: get_table_sql_cases summary_prepared_def split: sum.splits option.splits)

lemma get_fk_sql_tables:
  "get_fk_sql st t = Inr (fks, st1) \<Longrightarrow> tables_sql st1 = tables_sql st"
  by (auto simp: get_fk_sql_def summary_prepared_def split: sum.splits)

lemma get_index_sql_tables:
  "get_index_sql st t = Inr (idxs, st1) \<Longrightarrow> tables_sql st1 = tables_sql st"
  by (auto simp: get_index_sql_def summary_prepared_def split: sum.splits)

lemma load_tables_created:
  "load_tables st ts = Inr st' \<Longrightarrow>
     \<exists>ddls. tables_sql st' = tables_sql st @ ddls \<and>
       map created_table ddls =
         map (\<lambda>t. Some (tbl_name t)) (filter (\<lambda>t. tbl_name t \<noteq> ''sqlite_sequence'') ts)"
proof (induction ts arbitrary: st)
  case Nil
  then show ?case by simp
next
  case (Cons t ts)
  show ?case
  proof (cases "tbl_name t = ''sqlite_sequence''")
    case True
    with Cons.prems have "load_tables st ts = Inr st'" by simp
    from Cons.IH [OF this] True show ?thesis by simp
  next
    case False
    with Cons.prems obtain ddl st1 fks st2 idxs st3 where
      g: "get_table_sql st t = Inr (ddl, st1)" and
      f: "get_fk_sql (st1\<lparr>tables_sql := tables_sql st1 @ [ddl]\<rparr>) t = Inr (fks, st2)" and
      i: "get_index_sql (st2\<lparr>fks_sql := fks_sql st2 @ fks\<rparr>) t = Inr (idxs, st3)" and
      r: "load_tables (st3\<lparr>indexes_sql := indexes_sql st3 @ idxs\<rparr>) ts = Inr st'"
      by (auto split: sum.splits)
    from get_table_sql_created [OF g] have c: "created_table ddl = Some (tbl_name t)"
      and t1: "tables_sql st1 = tables_sql st" by simp_all
    from get_fk_sql_tables [OF f] have t2: "tables_sql st2 = tables_sql st1 @ [ddl]" by simp
    from get_index_sql_tables [OF i] have t3: "tables_sql st3 = tables_sql st2" by simp
    from Cons.IH [OF r] obtain ddls where
      d: "tables_sql st' = tables_sql (st3\<lparr>indexes_sql := indexes_sql st3 @ idxs\<rparr>) @ ddls" and
      m: "map created_table ddls =
         map (\<lambda>t. Some (tbl_name t)) (filter (\<lambda>t. tbl_name t \<noteq> ''sqlite_sequence'') ts)"
      by blast
    from d t1 t2 t3 have "tables_sql st' = tables_sql st @ (ddl # ddls)" by simp
    moreover from m c False have "map created_table (ddl # ddls) =
         map (\<lambda>t. Some (tbl_name t)) (filter (\<lambda>t. tbl_name t \<noteq> ''sqlite_sequence'') (t # ts))"
      by simp
    ultimately show ?thesis by blast
  qed
qed

lemma prepare_data_entry:
  "summary (prepare_data c st t) Data n =
     (if n = tbl_name t
      then Some [''row_count'' \<mapsto> SInt c, ''status'' \<mapsto> SStr ''PREPARED'']
      else summary st Data n)"
  by (simp add: prepare_data_def)

lemma prepare_all_entry:
  "prepare_all db st ts = Inr st' \<Longrightarrow>
     summary st' Data n =
       (if n \<in> tbl_name ` set ts
        then Some [''row_count'' \<mapsto> SInt (projr (db_count db n)), ''status'' \<mapsto> SStr ''PREPARED'']
        else summary st Data n)"
proof (induction ts arbitrary: st)
  case Nil
  then show ?case by simp
next
  case (Cons t ts)
  from Cons.prems obtain c where c: "db_count db (tbl_name t) = Inr c"
    and r: "prepare_all db (prepare_data c st t) ts = Inr st'"
    by (auto split: sum.splits)
  from Cons.IH [OF r] c show ?case by (auto simp: prepare_data_entry)
qed

lemma prepare_all_counts:
  "prepare_all db st ts = Inr st' \<Longrightarrow> \<forall>t \<in> set ts. \<exists>c. db_count db (tbl_name t) = Inr c"
proof (induction ts arbitrary: st)
  case Nil
  then show ?case by simp
next
  case (Cons t ts)
  from Cons.prems obtain c where c: "db_count db (tbl_name t) = Inr c"
    and r: "prepare_all db (prepare_data c st t) ts = Inr st'"
    by (auto split: sum.splits)
  from Cons.IH [OF r] c show ?case by simp
qed

lemma prepare_all_total:
  "\<forall>t \<in> set ts. \<exists>c. db_count db (tbl_name t) = Inr c \<Longrightarrow> \<exists>st'. prepare_all db st ts = Inr st'"
proof (induction ts arbitrary: st)
  case Nil
  then show ?case by simp
next
  case (Cons t ts)
  from Cons.prems obtain c where c: "db_count db (tbl_name t) = Inr c" by auto
  from Cons.prems have "\<forall>t \<in> set ts. \<exists>c. db_count db (tbl_name t) = Inr c" by simp
  from Cons.IH [OF this, of "prepare_data c st t"] c show ?case by simp
qed

lemma get_table_sql_total:
  assumes "tbl_name t \<in> dom (checks_sql_by_table st)"
    and "\<forall>c \<in> set (tbl_columns t). brace_free (remap_column_type (col_type c))"
  shows "\<exists>ddl st'. get_table_sql st t = Inr (ddl, st') \<and>
           checks_sql_by_table st' = checks_sql_by_table st"
proof -
  from assms(2) have "\<forall>c \<in> set (tbl_columns t). \<exists>x. column_sql c = Inr x"
    using column_sql_brace_free by blast
  then obtain cols where cols: "map_err column_sql (tbl_columns t) = Inr cols"
    using map_err_total by blast
  from assms(1) obtain checks where "checks_sql_by_table st (tbl_name t) = Some checks" by auto
  with cols show ?thesis by (simp add: get_table_sql_cases)
qed

lemma get_fk_sql_total:
  assumes "\<forall>fk \<in> set (tbl_foreign_keys t). fk_other_column fk \<noteq> None"
  shows "\<exists>fks. get_fk_sql st t =
     Inr (fks, summary_prepared Fks (tbl_name t) (length (tbl_foreign_keys t)) st)"
proof -
  from assms have "\<forall>fk \<in> set (tbl_foreign_keys t). \<exists>x. fk_sql t fk = Inr x"
    by (auto simp: fk_sql_def format_fk)
  then obtain fks where "map_err (fk_sql t) (tbl_foreign_keys t) = Inr fks"
    using map_err_total by blast
  then show ?thesis by (simp add: get_fk_sql_def)
qed

text \<open>A foreign key without a referenced column makes \<open>get_fk_sql\<close> raise.\<close>

lemma get_fk_sql_raises_example:
  "get_fk_sql init
     (example_users\<lparr>tbl_foreign_keys :=
        [\<lparr>fk_column = ''id'', fk_other_table = ''Accounts'', fk_other_column = None\<rparr>]\<rparr>) =
   Inl TypeError"
  by (simp add: get_fk_sql_def fk_sql_def)

lemma get_index_sql_total:
  "\<exists>idxs. get_index_sql st t =
     Inr (idxs, summary_prepared Indexes (tbl_name t) (length (tbl_xindexes t)) st)"
proof -
  have "\<forall>i \<in> set (tbl_xindexes t). \<exists>x. index_sql t i = Inr x"
    using index_sql_total by blast
  then obtain idxs where "map_err (index_sql t) (tbl_xindexes t) = Inr idxs"
    using map_err_total by blast
  then show ?thesis by (simp add: get_index_sql_def)
qed

lemma load_tables_total:
  "\<forall>t \<in> set ts. tbl_name t \<noteq> ''sqlite_sequence'' \<longrightarrow>
       tbl_name t \<in> dom (checks_sql_by_table st) \<and>
       (\<forall>c \<in> set (tbl_columns t). brace_free (remap_column_type (col_type c))) \<and>
       (\<forall>fk \<in> set (tbl_foreign_keys t). fk_other_column fk \<noteq> None) \<Longrightarrow>
   \<exists>st'. load_tables st ts = Inr st'"
proof (induction ts arbitrary: st)
  case Nil
  then show ?case by simp
next
  case (Cons t ts)
  show ?case
  proof (cases "tbl_name t = ''sqlite_sequence''")
    case True
    with Cons.IH [of st] Cons.prems show ?thesis by simp
  next
    case False
    with Cons.prems have "tbl_name t \<in> dom (checks_sql_by_table st)"
      and "\<forall>c \<in> set (tbl_columns t). brace_free (remap_column_type (col_type c))"
      and fk: "\<forall>fk \<in> set (tbl_foreign_keys t). fk_other_column fk \<noteq> None"
      by simp_all
    from get_table_sql_total [OF this(1,2)] obtain ddl st1 where
      g: "get_table_sql st t = Inr (ddl, st1)" and
      c1: "checks_sql_by_table st1 = checks_sql_by_table st" by blast
    let ?s1 = "st1\<lparr>tables_sql := tables_sql st1 @ [ddl]\<rparr>"
    from get_fk_sql_total [OF fk, of ?s1] obtain fks where
      f: "get_fk_sql ?s1 t =
            Inr (fks, summary_prepared Fks (tbl_name t) (length (tbl_foreign_keys t)) ?s1)"
      by blast
    let ?st2 = "summary_prepared Fks (tbl_name t) (length (tbl_foreign_keys t)) ?s1"
    let ?s2 = "?st2\<lparr>fks_sql := fks_sql ?st2 @ fks\<rparr>"
    from get_index_sql_total [of ?s2 t] obtain idxs where
      i: "get_index_sql ?s2 t =
            Inr (idxs, summary_prepared Indexes (tbl_name t) (length (tbl_xindexes t)) ?s2)"
      by blast
    let ?st3 = "summary_prepared Indexes (tbl_name t) (length (tbl_xindexes t)) ?s2"
    let ?s3 = "?st3\<lparr>indexes_sql := indexes_sql ?st3 @ idxs\<rparr>"
    have "checks_sql_by_table ?s3 = checks_sql_by_table st"
      using c1 by simp
    with Cons.prems have "\<forall>t \<in> set ts. tbl_name t \<noteq> ''sqlite_sequence'' \<longrightarrow>
       tbl_name t \<in> dom (checks_sql_by_table ?s3) \<and>
       (\<forall>c \<in> set (tbl_columns t). brace_free (remap_column_type (col_type c))) \<and>
       (\<forall>fk \<in> set (tbl_foreign_keys t). fk_other_column fk \<noteq> None)"
      by simp
    from Cons.IH [OF this] obtain st' where "load_tables ?s3 ts = Inr st'" by blast
    with False g f i show ?thesis by simp
  qed
qed

lemma load_schema_total:
  assumes "\<forall>(n, text) \<in> set (db_master db). \<forall>line \<in> set (check_lines text).
      str_contains ''('' line \<and> str_contains '')'' line"
    and "\<forall>t \<in> set (db_tables db). tbl_name t \<noteq> ''sqlite_sequence'' \<longrightarrow>
       tbl_name t \<in> fst ` set (db_master db) \<and>
       (\<forall>c \<in> set (tbl_columns t). brace_free (remap_column_type (col_type c))) \<and>
       (\<forall>fk \<in> set (tbl_foreign_keys t). fk_other_column fk \<noteq> None)"
  shows "\<exists>st1. load_schema st db = Inr st1"
proof -
  let ?m = "map_of (rev (map (\<lambda>(n, text). (n, map check_clause (check_lines text))) (db_master db)))"
  from collect_checks_eq [OF assms(1), of Map.empty]
  have m: "get_check_constraints (db_master db) = Inr ?m"
    by (simp add: get_check_constraints_def)
  have "dom ?m = fst ` set (db_master db)"
    by (force simp: dom_map_of_conv_image_fst)
  with assms(2) have "\<forall>t \<in> set (db_tables db). tbl_name t \<noteq> ''sqlite_sequence'' \<longrightarrow>
       tbl_name t \<in> dom (checks_sql_by_table (st\<lparr>checks_sql_by_table := ?m\<rparr>)) \<and>
       (\<forall>c \<in> set (tbl_columns t). brace_free (remap_column_type (col_type c))) \<and>
       (\<forall>fk \<in> set (tbl_foreign_keys t). fk_other_column fk \<noteq> None)"
    by simp
  from load_tables_total [OF this] m show ?thesis by (simp add: load_schema_def)
qed

lemma example_schema_loads: "\<exists>st1. load_schema init example_database = Inr st1"
proof (rule load_schema_total)
  have "\<forall>(n, text) \<in> set (db_master example_database). check_lines text = []"
    by (simp add: example_database_def check_lines_def)
  then show "\<forall>(n, text) \<in> set (db_master example_database). \<forall>line \<in> set (check_lines text).
      str_contains ''('' line \<and> str_contains '')'' line"
    by auto
  show "\<forall>t \<in> set (db_tables example_database). tbl_name t \<noteq> ''sqlite_sequence'' \<longrightarrow>
       tbl_name t \<in> fst ` set (db_master example_database) \<and>
       (\<forall>c \<in> set (tbl_columns t). brace_free (remap_column_type (col_type c))) \<and>
       (\<forall>fk \<in> set (tbl_foreign_keys t). fk_other_column fk \<noteq> None)"
    by (simp add: example_database_def example_users_def example_sequence_def
        remap_column_type_def str_replace.simps brace_free_def)
qed

lemma example_quoted_schema_loads: "\<exists>st1. load_schema init example_quoted_database = Inr st1"
proof (rule load_schema_total)
  have "\<forall>(n, text) \<in> set (db_master example_quoted_database). check_lines text = []"
    by (simp add: example_quoted_database_def check_lines_def)
  then show "\<forall>(n, text) \<in> set (db_master example_quoted_database).
      \<forall>line \<in> set (check_lines text). str_contains ''('' line \<and> str_contains '')'' line"
    by auto
  show "\<forall>t \<in> set (db_tables example_quoted_database). tbl_name t \<noteq> ''sqlite_sequence'' \<longrightarrow>
       tbl_name t \<in> fst ` set (db_master example_quoted_database) \<and>
       (\<forall>c \<in> set (tbl_columns t). brace_free (remap_column_type (col_type c))) \<and>
       (\<forall>fk \<in> set (tbl_foreign_keys t). fk_other_column fk \<noteq> None)"
    by (simp add: example_quoted_database_def example_quoted_def example_sequence_def
        remap_column_type_def brace_free_def)
qed

text \<open>
  C9, as the code has it. For a database with a table named \<open>sqlite_sequence\<close>: when
  \<open>load_schema\<close> returns, the statements it has appended to \<open>tables_sql\<close> create exactly
  the tables with another name, in catalog order, so none creates \<open>sqlite_sequence\<close>.
  \<open>load_data_to_postgres\<close> gets through its first loop exactly when the count statement
  of every table of the catalog is answered; then it has written a data summary entry
  for \<open>sqlite_sequence\<close> and has created a copy task for every table of the catalog,
  that table included; and that task, once its own query on the source is answered,
  opens its channel with \<open>COPY "sqlite_sequence" FROM STDIN\<close>, whatever becomes of the
  rows.
\<close>

theorem sqlite_sequence_skipped_but_loaded:
  "t \<in> set (db_tables db) \<and> tbl_name t = ''sqlite_sequence'' \<longrightarrow>
     (load_schema st db = Inr st1 \<longrightarrow>
        (\<exists>ddls. tables_sql st1 = tables_sql st @ ddls \<and>
           map created_table ddls =
             map (\<lambda>t. Some (tbl_name t))
               (filter (\<lambda>t. tbl_name t \<noteq> ''sqlite_sequence'') (db_tables db)) \<and>
           Some ''sqlite_sequence'' \<notin> set (map created_table ddls))) \<and>
     ((\<exists>st2 tasks. load_data_to_postgres st1 db = Inr (st2, tasks)) \<longleftrightarrow>
        (\<forall>u \<in> set (db_tables db). \<exists>c. db_count db (tbl_name u) = Inr c)) \<and>
     (load_data_to_postgres st1 db = Inr (st2, tasks) \<longrightarrow>
        (\<exists>c. db_count db ''sqlite_sequence'' = Inr c \<and>
           summary st2 Data ''sqlite_sequence'' =
             Some [''row_count'' \<mapsto> SInt c, ''status'' \<mapsto> SStr ''PREPARED'']) \<and>
        tasks = db_tables db \<and> t \<in> set tasks \<and>
        (\<forall>rows. db_select db ''sqlite_sequence'' = Inr rows \<longrightarrow>
           fst (write_table_data st2 db t) =
             Some (''COPY '' @ [CHR 0x22] @ ''sqlite_sequence'' @ [CHR 0x22] @ '' FROM STDIN'')))"
proof (intro impI conjI)
  assume a: "t \<in> set (db_tables db) \<and> tbl_name t = ''sqlite_sequence''"
  {
    assume "load_schema st db = Inr st1"
    then obtain checks where
      "load_tables (st\<lparr>checks_sql_by_table := checks\<rparr>) (db_tables db) = Inr st1"
      by (auto simp: load_schema_def split: sum.splits)
    from load_tables_created [OF this] obtain ddls where
      d: "tables_sql st1 = tables_sql st @ ddls" and
      m: "map created_table ddls =
             map (\<lambda>t. Some (tbl_name t))
               (filter (\<lambda>t. tbl_name t \<noteq> ''sqlite_sequence'') (db_tables db))"
      by auto
    from m have "Some ''sqlite_sequence'' \<notin> set (map created_table ddls)" by auto
    with d m show "\<exists>ddls. tables_sql st1 = tables_sql st @ ddls \<and>
           map created_table ddls =
             map (\<lambda>t. Some (tbl_name t))
               (filter (\<lambda>t. tbl_name t \<noteq> ''sqlite_sequence'') (db_tables db)) \<and>
           Some ''sqlite_sequence'' \<notin> set (map created_table ddls)"
      by blast
  }
  show "(\<exists>st2 tasks. load_data_to_postgres st1 db = Inr (st2, tasks)) \<longleftrightarrow>
        (\<forall>u \<in> set (db_tables db). \<exists>c. db_count db (tbl_name u) = Inr c)"
  proof
    assume "\<exists>st2 tasks. load_data_to_postgres st1 db = Inr (st2, tasks)"
    then obtain s where "prepare_all db st1 (db_tables db) = Inr s"
      by (auto simp: load_data_to_postgres_def split: sum.splits)
    then show "\<forall>u \<in> set (db_tables db). \<exists>c. db_count db (tbl_name u) = Inr c"
      by (rule prepare_all_counts)
  next
    assume "\<forall>u \<in> set (db_tables db). \<exists>c. db_count db (tbl_name u) = Inr c"
    from prepare_all_total [OF this, of st1] obtain s where
      "prepare_all db st1 (db_tables db) = Inr s" by blast
    then show "\<exists>st2 tasks. load_data_to_postgres st1 db = Inr (st2, tasks)"
      by (simp add: load_data_to_postgres_def)
  qed
  {
    assume l: "load_data_to_postgres st1 db = Inr (st2, tasks)"
    then have s2: "prepare_all db st1 (db_tables db) = Inr st2" and tk: "tasks = db_tables db"
      by (auto simp: load_data_to_postgres_def split: sum.splits)
    from a have mem: "''sqlite_sequence'' \<in> tbl_name ` set (db_tables db)" by force
    from prepare_all_counts [OF s2] a obtain c where
      c: "db_count db ''sqlite_sequence'' = Inr c" by force
    from prepare_all_entry [OF s2, of "''sqlite_sequence''"] mem c
    have "summary st2 Data ''sqlite_sequence'' =
             Some [''row_count'' \<mapsto> SInt c, ''status'' \<mapsto> SStr ''PREPARED'']"
      by simp
    with c show "\<exists>c. db_count db ''sqlite_sequence'' = Inr c \<and>
           summary st2 Data ''sqlite_sequence'' =
             Some [''row_count'' \<mapsto> SInt c, ''status'' \<mapsto> SStr ''PREPARED'']"
      by blast
    from tk show "tasks = db_tables db" .
    from tk a show "t \<in> set tasks" by simp
    from a show "\<forall>rows. db_select db ''sqlite_sequence'' = Inr rows \<longrightarrow>
           fst (write_table_data st2 db t) =
             Some (''COPY '' @ [CHR 0x22] @ ''sqlite_sequence'' @ [CHR 0x22] @ '' FROM STDIN'')"
      by (simp add: write_table_data_def copy_statement_def)
  }
qed

theorem sqlite_sequence_skipped_but_loaded_witness:
  "\<exists>st1 st2 tasks.
     load_schema init example_database = Inr st1 \<and>
     map created_table (tables_sql st1) = [Some ''Users''] \<and>
     load_data_to_postgres st1 example_database = Inr (st2, tasks) \<and>
     summary st2 Data ''sqlite_sequence'' =
       Some [''row_count'' \<mapsto> SInt 1, ''status'' \<mapsto> SStr ''PREPARED''] \<and>
     tasks = [example_users, example_sequence] \<and>
     fst (write_table_data st2 example_database example_sequence) =
       Some (''COPY '' @ [CHR 0x22] @ ''sqlite_sequence'' @ [CHR 0x22] @ '' FROM STDIN'')"
proof -
  from example_schema_loads obtain st1 where s1: "load_schema init example_database = Inr st1"
    by blast
  have a: "example_sequence \<in> set (db_tables example_database) \<and>
      tbl_name example_sequence = ''sqlite_sequence''"
    by (simp add: example_database_def example_sequence_def)
  have cnt: "\<forall>u \<in> set (db_tables example_database).
      \<exists>c. db_count example_database (tbl_name u) = Inr c"
    by (simp add: example_database_def example_users_def example_sequence_def)
  from sqlite_sequence_skipped_but_loaded [of example_sequence example_database init st1]
    a cnt obtain st2 tasks where
    s2: "load_data_to_postgres st1 example_database = Inr (st2, tasks)"
    by blast
  from sqlite_sequence_skipped_but_loaded
    [of example_sequence example_database init st1 st2 tasks] a s1 s2
  obtain ddls c where d: "tables_sql st1 = tables_sql init @ ddls"
    and m: "map created_table ddls =
             map (\<lambda>t. Some (tbl_name t))
               (filter (\<lambda>t. tbl_name t \<noteq> ''sqlite_sequence'') (db_tables example_database))"
    and c: "db_count example_database ''sqlite_sequence'' = Inr c"
    and e: "summary st2 Data ''sqlite_sequence'' =
             Some [''row_count'' \<mapsto> SInt c, ''status'' \<mapsto> SStr ''PREPARED'']"
    and tk: "tasks = db_tables example_database"
    and w: "\<forall>rows. db_select example_database ''sqlite_sequence'' = Inr rows \<longrightarrow>
           fst (write_table_data st2 example_database example_sequence) =
             Some (''COPY '' @ [CHR 0x22] @ ''sqlite_sequence'' @ [CHR 0x22] @ '' FROM STDIN'')"
    by blast
  from d m have 1: "map created_table (tables_sql st1) = [Some ''Users'']"
    by (simp add: init_def example_database_def example_users_def example_sequence_def)
  from c have "c = 1" by (simp add: example_database_def)
  with e have 2: "summary st2 Data ''sqlite_sequence'' =
       Some [''row_count'' \<mapsto> SInt 1, ''status'' \<mapsto> SStr ''PREPARED'']"
    by simp
  from tk have 3: "tasks = [example_users, example_sequence]"
    by (simp add: example_database_def)
  have "db_select example_database ''sqlite_sequence'' = Inr [[PStr ''Users'', PInt 1]]"
    by (simp add: example_database_def)
  with w have 4: "fst (write_table_data st2 example_database example_sequence) =
       Some (''COPY '' @ [CHR 0x22] @ ''sqlite_sequence'' @ [CHR 0x22] @ '' FROM STDIN'')"
    by blast
  from s1 1 s2 2 3 4 show ?thesis
    by (intro exI [of _ st1] exI [of _ st2] exI [of _ tasks] conjI)
qed

text \<open>
  C9 as stated fails on a database that lists a table named \<open>a"b\<close> before
  \<open>sqlite_sequence\<close>: the schema is built, but the count statement of the first table
  raises, so that the data-load phase ends before it has written an entry or created a
  task for \<open>sqlite_sequence\<close>.
\<close>

theorem sqlite_sequence_not_loaded_counterexample:
  "example_sequence \<in> set (db_tables example_quoted_database) \<and>
   tbl_name example_sequence = ''sqlite_sequence'' \<and>
   (case load_schema init example_quoted_database of
      Inl e \<Rightarrow> False
    | Inr st1 \<Rightarrow> load_data_to_postgres st1 example_quoted_database = Inl OperationalError)"
proof -
  from example_quoted_schema_loads obtain st1 where
    "load_schema init example_quoted_database = Inr st1" by blast
  moreover have "load_data_to_postgres st1 example_quoted_database = Inl OperationalError"
    by (simp add: load_data_to_postgres_def example_quoted_database_def example_quoted_def)
  ultimately show ?thesis
    by (simp add: example_quoted_database_def example_sequence_def)
qed

end
